theory Spec2Isabelle
  imports Complex_Main "HOL-Library.Sublist"
begin

section \<open>Strings: the Python string operations used by the analyzer\<close>

text \<open>
  A Python \<open>str\<close> is a list of Unicode code points, here natural numbers; \<open>lit\<close> gives
  the \<open>str\<close> of an ASCII literal. The operations below are the ones \<open>parse_file\<close> of
  \<open>flamegraph_analyzer.py\<close> calls on \<open>str\<close>: \<open>strip\<close>, \<open>rsplit(sep, 1)\<close>, \<open>split(sep)\<close>,
  \<open>in\<close> and \<open>int\<close>. They are built into the interpreter, not part of the repository;
  what they read from the interpreter (the table of Unicode decimal digits, the limit on
  the number of digits of an integer literal) is the record \<open>interpreter\<close>, a parameter of
  the model.
\<close>

type_synonym str = "nat list"

definition lit :: "string \<Rightarrow> str" where
  "lit cs = map of_char cs"

abbreviation semicolon :: nat where
  "semicolon \<equiv> 0x3B"

abbreviation space :: nat where
  "space \<equiv> 0x20"

record interpreter =
  unicode_decimal :: "nat \<Rightarrow> nat option"
  max_str_digits :: nat

text \<open>An interpreter for the examples: the default limit of 4300 digits, and as decimal
  digits beyond ASCII the fullwidth digits U+FF10 to U+FF19 only. On lines of code points
  below 128 every interpreter agrees with it, whatever a line's length below the limit.\<close>

definition example_interpreter :: interpreter where
  "example_interpreter =
     \<lparr> unicode_decimal = (\<lambda>c. if 0xFF10 \<le> c \<and> c \<le> 0xFF19 then Some (c - 0xFF10) else None),
       max_str_digits = 4300 \<rparr>"

text \<open>
  The code points for which \<open>str.isspace\<close> holds, which are the ones \<open>str.strip()\<close>
  removes: the ASCII ones, 0x09 to 0x0D and 0x1C to 0x20, and the Unicode ones beyond.
\<close>

definition is_space :: "nat \<Rightarrow> bool" where
  "is_space c =
     ((0x09 \<le> c \<and> c \<le> 0x0D) \<or> (0x1C \<le> c \<and> c \<le> 0x20) \<or> c = 0x85 \<or> c = 0xA0
      \<or> c = 0x1680 \<or> (0x2000 \<le> c \<and> c \<le> 0x200A) \<or> c = 0x2028 \<or> c = 0x2029
      \<or> c = 0x202F \<or> c = 0x205F \<or> c = 0x3000)"

text \<open>\<open>s.strip()\<close>: whitespace removed at both ends.\<close>

definition strip :: "str \<Rightarrow> str" where
  "strip s = rev (dropWhile is_space (rev (dropWhile is_space s)))"

text \<open>\<open>s.rsplit(c, 1)\<close>: at most one split, at the last occurrence of \<open>c\<close>.\<close>

definition rsplit1 :: "'a \<Rightarrow> 'a list \<Rightarrow> 'a list list" where
  "rsplit1 c s =
     (if c \<in> set s
      then [rev (tl (dropWhile (\<lambda>x. x \<noteq> c) (rev s))), rev (takeWhile (\<lambda>x. x \<noteq> c) (rev s))]
      else [s])"

text \<open>\<open>s.split(c)\<close>: splits at every occurrence of \<open>c\<close>; the result is never empty
  (\<open>''.split(';')\<close> is \<open>['']\<close>).\<close>

fun split :: "'a \<Rightarrow> 'a list \<Rightarrow> 'a list list" where
  "split c [] = [[]]"
| "split c (x # xs) =
     (if x = c then [] # split c xs
      else (case split c xs of [] \<Rightarrow> [[x]] | y # ys \<Rightarrow> (x # y) # ys))"

text \<open>\<open>sub in s\<close>: \<open>sub\<close> occurs in \<open>s\<close> as a contiguous substring.\<close>

fun py_in :: "'a list \<Rightarrow> 'a list \<Rightarrow> bool" where
  "py_in sub [] = (sub = [])"
| "py_in sub (c # cs) = (prefix sub (c # cs) \<or> py_in sub cs)"

subsection \<open>\<open>int\<close> of a string\<close>

text \<open>
  \<open>int(s)\<close>, base 10. The interpreter first maps every code point from 128 on to ASCII:
  a whitespace character to a space, a Unicode decimal digit to its ASCII digit, anything
  else to a question mark (which no integer literal contains); code points below 128 are
  kept. On the result, the whitespace of C (0x09 to 0x0D and the space; not 0x1C to 0x1F)
  is skipped at both ends, one sign is allowed, then come decimal digits, where single
  underscores may stand between digits. A literal of more than 640 digits that exceeds a
  positive \<open>max_str_digits\<close> is refused. \<open>None\<close> is the \<open>ValueError\<close>.
\<close>

definition to_ascii :: "interpreter \<Rightarrow> nat \<Rightarrow> nat" where
  "to_ascii py c =
     (if c < 128 then c
      else if is_space c then 0x20
      else (case unicode_decimal py c of
              Some d \<Rightarrow> if d < 10 then 0x30 + d else 0x3F
            | None \<Rightarrow> 0x3F))"

definition c_isspace :: "nat \<Rightarrow> bool" where
  "c_isspace c = ((0x09 \<le> c \<and> c \<le> 0x0D) \<or> c = 0x20)"

definition is_digit :: "nat \<Rightarrow> bool" where
  "is_digit c = (0x30 \<le> c \<and> c \<le> 0x39)"

definition digit_val :: "nat \<Rightarrow> int" where
  "digit_val c = int c - 0x30"

fun digits_ok :: "str \<Rightarrow> bool" where
  "digits_ok [] = False"
| "digits_ok [c] = is_digit c"
| "digits_ok (c # d # cs) =
     (is_digit c \<and> (if d = 0x5F then digits_ok cs else digits_ok (d # cs)))"

definition digits_value :: "str \<Rightarrow> int" where
  "digits_value ds = foldl (\<lambda>acc c. acc * 10 + digit_val c) 0 (filter (\<lambda>c. c \<noteq> 0x5F) ds)"

definition exceeds_limit :: "interpreter \<Rightarrow> nat \<Rightarrow> bool" where
  "exceeds_limit py n = (640 < n \<and> 0 < max_str_digits py \<and> max_str_digits py < n)"

definition unsigned_int :: "interpreter \<Rightarrow> str \<Rightarrow> int option" where
  "unsigned_int py ds =
     (if digits_ok ds
      then (if exceeds_limit py (length (filter (\<lambda>c. c \<noteq> 0x5F) ds)) then None
            else Some (digits_value ds))
      else None)"

definition py_int :: "interpreter \<Rightarrow> str \<Rightarrow> int option" where
  "py_int py s =
     (let t = rev (dropWhile c_isspace (rev (dropWhile c_isspace (map (to_ascii py) s))))
      in case t of
           [] \<Rightarrow> None
         | c # r \<Rightarrow>
             if c = 0x2D then map_option uminus (unsigned_int py r)
             else if c = 0x2B then unsigned_int py r
             else unsigned_int py t)"

section \<open>The line parser\<close>

text \<open>
  One iteration of the loop of \<open>parse_file\<close>, up to the computation of \<open>stack\<close> and
  \<open>count\<close>. \<open>None\<close> is the \<open>continue\<close> of an empty line; the \<open>ValueError\<close> of \<open>int\<close> is
  caught by the source and is the \<open>None\<close> branch of \<open>py_int\<close> here.
\<close>

type_synonym sample = "str list \<times> int"

definition parse_line :: "interpreter \<Rightarrow> str \<Rightarrow> sample option" where
  "parse_line py raw =
     (let line = strip raw in
      if line = [] then None
      else
        let parts0 = rsplit1 semicolon line;
            parts = (if length parts0 \<noteq> 2
                     then (if space \<in> set line then rsplit1 space line else parts0)
                     else parts0);
            sc = (if length parts = 2
                  then (case py_int py (parts ! 1) of
                          Some n \<Rightarrow> (parts ! 0, n)
                        | None \<Rightarrow> (line, 1))
                  else (line, 1))
        in Some (split semicolon (fst sc), snd sc))"

section \<open>The analyzer state\<close>

text \<open>
  A \<open>defaultdict(int)\<close> is an association list in insertion order (the order in which
  Python iterates a dict); \<open>d[k] += v\<close> is \<open>add_count\<close>, which creates the entry of a new
  key at the end, and \<open>d.get(k, 0)\<close> is \<open>get_count\<close>. A \<open>defaultdict(set)\<close> maps a key to a
  set of frame names.
\<close>

type_synonym tally = "(str \<times> int) list"

fun add_count :: "tally \<Rightarrow> str \<Rightarrow> int \<Rightarrow> tally" where
  "add_count [] k v = [(k, v)]"
| "add_count ((k', n) # m) k v =
     (if k' = k then (k', n + v) # m else (k', n) # add_count m k v)"

definition get_count :: "tally \<Rightarrow> str \<Rightarrow> int" where
  "get_count m k = (case map_of m k of Some n \<Rightarrow> n | None \<Rightarrow> 0)"

definition sum_values :: "tally \<Rightarrow> int" where
  "sum_values m = sum_list (map snd m)"

type_synonym relations = "(str \<times> str set) list"

fun add_edge :: "relations \<Rightarrow> str \<Rightarrow> str \<Rightarrow> relations" where
  "add_edge [] k x = [(k, {x})]"
| "add_edge ((k', s) # m) k x =
     (if k' = k then (k', insert x s) # m else (k', s) # add_edge m k x)"

definition callees :: "relations \<Rightarrow> str \<Rightarrow> str set" where
  "callees m k = (case map_of m k of Some s \<Rightarrow> s | None \<Rightarrow> {})"

record analyzer =
  inclusive_time :: tally
  exclusive_time :: tally
  call_relations :: relations
  leaf_counts :: tally
  func_counts :: tally
  total_samples :: int
  parsed_lines :: int
  line_count :: int
  malloc_counts :: tally
  free_counts :: tally
  category_counts :: tally

text \<open>The state \<open>__init__\<close> builds (the fields \<open>file_path\<close> and \<open>alloc_size\<close>, which no
  computation reads, are left out).\<close>

definition init :: analyzer where
  "init = \<lparr> inclusive_time = [], exclusive_time = [], call_relations = [],
            leaf_counts = [], func_counts = [], total_samples = 0, parsed_lines = 0,
            line_count = 0, malloc_counts = [], free_counts = [], category_counts = [] \<rparr>"

text \<open>The configured categories, \<open>self.categories\<close>, in the order of the dict literal.\<close>

definition categories :: "(str \<times> str) list" where
  "categories =
     [(lit ''MoganSTEM'', lit ''MoganSTEM''), (lit ''Qt'', lit ''Qt''),
      (lit ''AppKit'', lit ''AppKit''), (lit ''CoreFoundation'', lit ''CoreFoundation''),
      (lit ''libsystem_malloc'', lit ''libsystem_malloc''),
      (lit ''libsystem_kernel'', lit ''libsystem_kernel''),
      (lit ''QuartzCore'', lit ''QuartzCore''), (lit ''Foundation'', lit ''Foundation''),
      (lit ''HIToolbox'', lit ''HIToolbox''), (lit ''CoreText'', lit ''CoreText''),
      (lit ''iiiSTEM'', lit ''iiiSTEM''), (lit ''libqcocoa'', lit ''libqcocoa.dylib''),
      (lit ''libqsvgicon'', lit ''libqsvgicon.dylib''), (lit ''libxpc'', lit ''libxpc.dylib''),
      (lit ''libdispatch'', lit ''libdispatch.dylib''),
      (lit ''libobjc'', lit ''libobjc.A.dylib''),
      (lit ''libswiftCore'', lit ''libswiftCore.dylib'')]"

text \<open>The name of the fallback bucket, the two code points U+5176 and U+4ED6 of the
  source.\<close>

definition other :: str where
  "other = [0x5176, 0x4ED6]"

section \<open>The stack aggregator\<close>

text \<open>Step 1: \<open>func_counts\<close>, which skips a frame whose name is the empty string.\<close>

definition count_funcs :: "tally \<Rightarrow> str list \<Rightarrow> int \<Rightarrow> tally" where
  "count_funcs m stack count =
     foldl (\<lambda>m func. if func \<noteq> [] then add_count m func count else m) m stack"

text \<open>Step 2: the call relations, for \<open>i\<close> in \<open>range(len(stack) - 1)\<close>.\<close>

definition record_relations :: "relations \<Rightarrow> str list \<Rightarrow> relations" where
  "record_relations m stack =
     foldl (\<lambda>m i. add_edge m (stack ! i) (stack ! (i + 1))) m [0 ..< length stack - 1]"

text \<open>Step 3: \<open>inclusive_time\<close>, for every frame of the stack.\<close>

definition count_inclusive :: "tally \<Rightarrow> str list \<Rightarrow> int \<Rightarrow> tally" where
  "count_inclusive m stack count = foldl (\<lambda>m func. add_count m func count) m stack"

text \<open>Step 5: the test on the leaf's name that selects the allocation tally, and the one
  that selects the free tally when the first fails.\<close>

definition is_alloc :: "str \<Rightarrow> bool" where
  "is_alloc leaf_func =
     (py_in (lit ''malloc'') leaf_func \<or> py_in (lit ''calloc'') leaf_func
      \<or> py_in (lit ''realloc'') leaf_func)"

definition is_free :: "str \<Rightarrow> bool" where
  "is_free leaf_func = py_in (lit ''free'') leaf_func"

text \<open>The body of the loop after \<open>stack\<close> and \<open>count\<close> are known (from
  \<open>self.total_samples += count\<close> on).\<close>

definition record_sample :: "analyzer \<Rightarrow> sample \<Rightarrow> analyzer" where
  "record_sample st smp =
     (let stack = fst smp; count = snd smp;
          st1 = st\<lparr> total_samples := total_samples st + count,
                    parsed_lines := parsed_lines st + 1 \<rparr>
      in if stack = [] then st1
         else
           let leaf_func = last stack;
               st2 = st1\<lparr> func_counts := count_funcs (func_counts st1) stack count,
                          call_relations := record_relations (call_relations st1) stack,
                          inclusive_time := count_inclusive (inclusive_time st1) stack count,
                          exclusive_time := add_count (exclusive_time st1) leaf_func count,
                          leaf_counts := add_count (leaf_counts st1) leaf_func count \<rparr>
           in if is_alloc leaf_func
              then st2\<lparr> malloc_counts := add_count (malloc_counts st2) leaf_func count \<rparr>
              else if is_free leaf_func
              then st2\<lparr> free_counts := add_count (free_counts st2) leaf_func count \<rparr>
              else st2)"

text \<open>One iteration of the loop over the lines of the file.\<close>

definition process_line :: "interpreter \<Rightarrow> analyzer \<Rightarrow> str \<Rightarrow> analyzer" where
  "process_line py st raw =
     (let st0 = st\<lparr> line_count := line_count st + 1 \<rparr>
      in case parse_line py raw of
           None \<Rightarrow> st0
         | Some smp \<Rightarrow> record_sample st0 smp)"

section \<open>The categorizer\<close>

text \<open>
  Step 6, the inner loop over \<open>self.categories.items()\<close>: the first pair whose substring
  occurs in \<open>func\<close> receives \<open>count\<close> and ends the loop; the result carries the flag
  \<open>categorized\<close>.
\<close>

fun categorize_one :: "(str \<times> str) list \<Rightarrow> tally \<Rightarrow> str \<Rightarrow> int \<Rightarrow> tally \<times> bool" where
  "categorize_one [] cc func count = (cc, False)"
| "categorize_one ((cat_name, cat_prefix) # rest) cc func count =
     (if py_in cat_prefix func then (add_count cc cat_name count, True)
      else categorize_one rest cc func count)"

definition categorize_func :: "(str \<times> str) list \<Rightarrow> tally \<Rightarrow> str \<times> int \<Rightarrow> tally" where
  "categorize_func cats cc fc =
     (let r = categorize_one cats cc (fst fc) (snd fc)
      in if \<not> snd r then add_count (fst r) other (snd fc) else fst r)"

definition compute_categories :: "(str \<times> str) list \<Rightarrow> analyzer \<Rightarrow> analyzer" where
  "compute_categories cats st =
     st\<lparr> category_counts := foldl (categorize_func cats) (category_counts st) (func_counts st) \<rparr>"

section \<open>\<open>parse_file\<close> and its callers\<close>

text \<open>
  \<open>parse_file\<close> is a method: it reads the lines of the file and adds to the tallies the
  object already holds, then adds the whole of \<open>func_counts\<close> to the category buckets.
  \<open>lines\<close> are the lines the file yields; \<open>parse_file_with\<close> has the categories as a
  parameter.
\<close>

definition parse_lines :: "interpreter \<Rightarrow> analyzer \<Rightarrow> str list \<Rightarrow> analyzer" where
  "parse_lines py st lines = foldl (process_line py) st lines"

definition parse_file_with ::
  "interpreter \<Rightarrow> (str \<times> str) list \<Rightarrow> analyzer \<Rightarrow> str list \<Rightarrow> analyzer" where
  "parse_file_with py cats st lines = compute_categories cats (parse_lines py st lines)"

definition parse_file :: "interpreter \<Rightarrow> analyzer \<Rightarrow> str list \<Rightarrow> analyzer" where
  "parse_file py st lines = parse_file_with py categories st lines"

text \<open>
  \<open>main\<close> builds a fresh analyzer and calls \<open>parse_file\<close> (\<open>main_parse\<close>). With
  \<open>--analysis\<close> naming sections, the reports run on this state. In the default mode
  (\<open>--analysis all\<close>, or \<open>--no-report\<close>) it calls \<open>run_analysis\<close>, which calls \<open>parse_file\<close>
  again on the same object before the reports: \<open>main_default\<close> is the state they run on,
  the file being read twice with the same lines.
\<close>

definition main_parse :: "interpreter \<Rightarrow> str list \<Rightarrow> analyzer" where
  "main_parse py lines = parse_file py init lines"

definition main_default :: "interpreter \<Rightarrow> str list \<Rightarrow> analyzer" where
  "main_default py lines = parse_file py (main_parse py lines) lines"

text \<open>The samples of the accepted lines, in order.\<close>

definition samples_of :: "interpreter \<Rightarrow> str list \<Rightarrow> sample list" where
  "samples_of py lines = List.map_filter (parse_line py) lines"

section \<open>Floating point\<close>

text \<open>
  A Python \<open>float\<close> is an IEEE 754 binary64 number. A finite one is the real number it
  denotes (the sign of zero is not kept). \<open>binary64\<close> rounds a real number to the nearest
  number \<open>m * 2 ^ e\<close> with \<open>\<bar>m\<bar> < 2 ^ 53\<close> and \<open>e \<ge> - 1074\<close>, ties to the even \<open>m\<close>; a rounded
  magnitude of \<open>2 ^ 1024\<close> or more does not fit.
\<close>

fun bit_length :: "nat \<Rightarrow> nat" where
  "bit_length n = (if n = 0 then 0 else Suc (bit_length (n div 2)))"

declare bit_length.simps [simp del]

definition pow2 :: "int \<Rightarrow> real" where
  "pow2 e = (if 0 \<le> e then 2 ^ nat e else 1 / 2 ^ nat (- e))"

definition round_half_even :: "real \<Rightarrow> int" where
  "round_half_even x =
     (let f = \<lfloor>x\<rfloor>; d = x - of_int f
      in if d < 1 / 2 then f else if 1 / 2 < d then f + 1 else if even f then f else f + 1)"

text \<open>The integer part of the binary logarithm of a positive number.\<close>

definition ilog2 :: "real \<Rightarrow> int" where
  "ilog2 x =
     (if 1 \<le> x then int (bit_length (nat \<lfloor>x\<rfloor>)) - 1
      else - int (bit_length (nat (\<lceil>1 / x\<rceil> - 1))))"

definition binary64 :: "real \<Rightarrow> real" where
  "binary64 x =
     (if x = 0 then 0
      else let e = max (ilog2 \<bar>x\<bar> - 52) (- 1074)
           in of_int (round_half_even (x / pow2 e)) * pow2 e)"

definition overflows :: "real \<Rightarrow> bool" where
  "overflows x = (2 ^ 1024 \<le> \<bar>binary64 x\<bar>)"

datatype py_error = ZeroDivisionError | OverflowError

text \<open>\<open>a / b\<close> on integers: the correctly rounded quotient; \<open>ZeroDivisionError\<close> for a
  zero divisor, \<open>OverflowError\<close> when the quotient does not fit a float.\<close>

definition truediv :: "int \<Rightarrow> int \<Rightarrow> py_error + real" where
  "truediv a b =
     (if b = 0 then Inl ZeroDivisionError
      else if overflows (of_int a / of_int b) then Inl OverflowError
      else Inr (binary64 (of_int a / of_int b)))"

text \<open>\<open>x * 100\<close> on a float: the rounded product, an infinity when it does not fit (a
  product of floats raises no exception).\<close>

datatype pyfloat = Fin real | PosInf | NegInf

definition times100 :: "real \<Rightarrow> pyfloat" where
  "times100 x =
     (if overflows (x * 100) then (if 0 < x then PosInf else NegInf)
      else Fin (binary64 (x * 100)))"

text \<open>\<open>p > t\<close> for a float \<open>p\<close> and a finite \<open>t\<close>.\<close>

fun exceeds :: "pyfloat \<Rightarrow> real \<Rightarrow> bool" where
  "exceeds (Fin r) t = (t < r)"
| "exceeds PosInf t = True"
| "exceeds NegInf t = False"

text \<open>The float literals \<open>0.8\<close> and \<open>1.2\<close>.\<close>

definition float_0_8 :: real where
  "float_0_8 = binary64 (8 / 10)"

definition float_1_2 :: real where
  "float_1_2 = binary64 (12 / 10)"

section \<open>The reports\<close>

text \<open>
  A report operation returns what its rows are computed from, or the exception that ends
  it. The formatting of a row (the name cut to a fixed width, two decimals) is not part of
  the model. \<open>percentage\<close> is \<open>(v / tot) * 100\<close>.
\<close>

definition bind_err :: "py_error + 'a \<Rightarrow> ('a \<Rightarrow> py_error + 'b) \<Rightarrow> py_error + 'b" where
  "bind_err r f = (case r of Inl e \<Rightarrow> Inl e | Inr x \<Rightarrow> f x)"

text \<open>A loop that computes one row for each element, ended by the first exception.\<close>

fun for_each :: "('a \<Rightarrow> py_error + 'b) \<Rightarrow> 'a list \<Rightarrow> py_error + 'b list" where
  "for_each f [] = Inr []"
| "for_each f (x # xs) =
     (case f x of
        Inl e \<Rightarrow> Inl e
      | Inr y \<Rightarrow> (case for_each f xs of Inl e \<Rightarrow> Inl e | Inr ys \<Rightarrow> Inr (y # ys)))"

definition percentage :: "int \<Rightarrow> int \<Rightarrow> py_error + pyfloat" where
  "percentage v tot =
     (case truediv v tot of Inl e \<Rightarrow> Inl e | Inr q \<Rightarrow> Inr (times100 q))"

text \<open>The guarded form, \<open>(v / tot) * 100 if tot > 0 else 0\<close>.\<close>

definition guarded_percentage :: "int \<Rightarrow> int \<Rightarrow> py_error + pyfloat" where
  "guarded_percentage v tot = (if tot > 0 then percentage v tot else Inr (Fin 0))"

text \<open>\<open>sorted(xs, key=k, reverse=True)\<close> and \<open>xs.sort(key=k, reverse=True)\<close>: descending by
  the key, elements with equal keys in their original order.\<close>

definition sorted_desc :: "('a \<Rightarrow> int) \<Rightarrow> 'a list \<Rightarrow> 'a list" where
  "sorted_desc k xs = sort_key (\<lambda>x. - k x) xs"

text \<open>The slice \<open>xs[:n]\<close>, where a negative \<open>n\<close> counts from the end.\<close>

definition py_take :: "int \<Rightarrow> 'a list \<Rightarrow> 'a list" where
  "py_take n xs = (if 0 \<le> n then take (nat n) xs else take (nat (int (length xs) + n)) xs)"

text \<open>The loop of a ranking: one row \<open>(name, value, percentage)\<close> per entry.\<close>

fun ranking_rows :: "int \<Rightarrow> tally \<Rightarrow> py_error + (str \<times> int \<times> pyfloat) list" where
  "ranking_rows tot [] = Inr []"
| "ranking_rows tot ((func, time_val) # rest) =
     (case percentage time_val tot of
        Inl e \<Rightarrow> Inl e
      | Inr p \<Rightarrow>
          (case ranking_rows tot rest of
             Inl e \<Rightarrow> Inl e
           | Inr rows \<Rightarrow> Inr ((func, time_val, p) # rows)))"

definition print_inclusive_time_top :: "analyzer \<Rightarrow> int \<Rightarrow> py_error + (str \<times> int \<times> pyfloat) list" where
  "print_inclusive_time_top st top_n =
     ranking_rows (total_samples st) (py_take top_n (sorted_desc snd (inclusive_time st)))"

definition print_exclusive_time_top :: "analyzer \<Rightarrow> int \<Rightarrow> py_error + (str \<times> int \<times> pyfloat) list" where
  "print_exclusive_time_top st top_n =
     ranking_rows (total_samples st) (py_take top_n (sorted_desc snd (exclusive_time st)))"

definition print_leaf_functions_top :: "analyzer \<Rightarrow> int \<Rightarrow> py_error + (str \<times> int \<times> pyfloat) list" where
  "print_leaf_functions_top st top_n =
     ranking_rows (total_samples st) (py_take top_n (sorted_desc snd (leaf_counts st)))"

definition print_category_analysis :: "analyzer \<Rightarrow> py_error + (str \<times> int \<times> pyfloat) list" where
  "print_category_analysis st =
     ranking_rows (total_samples st) (sorted_desc snd (category_counts st))"

definition print_moganstem_analysis :: "analyzer \<Rightarrow> py_error + (str \<times> int \<times> pyfloat) list" where
  "print_moganstem_analysis st =
     (let mogan_inclusive =
            sorted_desc snd (filter (\<lambda>ft. py_in (lit ''MoganSTEM'') (fst ft)) (inclusive_time st))
      in if mogan_inclusive \<noteq> []
         then ranking_rows (total_samples st) (take 15 mogan_inclusive)
         else
           let iii_inclusive =
                 sorted_desc snd (filter (\<lambda>ft. py_in (lit ''iiiSTEM'') (fst ft)) (inclusive_time st))
           in if iii_inclusive \<noteq> []
              then ranking_rows (total_samples st) (take 15 iii_inclusive)
              else Inr [])"

subsection \<open>The high-cost view\<close>

text \<open>The loop of \<open>print_performance_issues\<close> over the window: the percentage of each
  entry is computed, and the entry is kept when it exceeds the threshold.\<close>

fun high_cost :: "real \<Rightarrow> int \<Rightarrow> tally \<Rightarrow> py_error + (str \<times> pyfloat) list" where
  "high_cost threshold tot [] = Inr []"
| "high_cost threshold tot ((func, time_val) # rest) =
     (case percentage time_val tot of
        Inl e \<Rightarrow> Inl e
      | Inr p \<Rightarrow>
          (case high_cost threshold tot rest of
             Inl e \<Rightarrow> Inl e
           | Inr high \<Rightarrow> Inr (if exceeds p threshold then (func, p) # high else high)))"

definition high_inclusive :: "analyzer \<Rightarrow> py_error + (str \<times> pyfloat) list" where
  "high_inclusive st =
     high_cost 2 (total_samples st) (take 20 (sorted_desc snd (inclusive_time st)))"

definition high_exclusive :: "analyzer \<Rightarrow> py_error + (str \<times> pyfloat) list" where
  "high_exclusive st =
     high_cost 1 (total_samples st) (take 20 (sorted_desc snd (exclusive_time st)))"

definition print_performance_issues ::
  "analyzer \<Rightarrow> py_error + ((str \<times> pyfloat) list \<times> (str \<times> pyfloat) list)" where
  "print_performance_issues st =
     (case high_inclusive st of
        Inl e \<Rightarrow> Inl e
      | Inr hi \<Rightarrow> (case high_exclusive st of Inl e \<Rightarrow> Inl e | Inr he \<Rightarrow> Inr (hi, he)))"

subsection \<open>The memory analysis\<close>

type_synonym mem_stat = "str \<times> int \<times> int \<times> int"

text \<open>
  \<open>memory_stats\<close>: one entry \<open>(func, malloc_count, free_count, total)\<close> for each name of
  \<open>all_memory_funcs\<close> with a positive total, sorted by the total. \<open>all_memory_funcs\<close> is a
  Python set, whose iteration order is not determined by the program: \<open>funcs\<close> is that
  order, a parameter.
\<close>

definition stat_of :: "analyzer \<Rightarrow> str \<Rightarrow> mem_stat" where
  "stat_of st func =
     (let malloc_count = get_count (malloc_counts st) func;
          free_count = get_count (free_counts st) func
      in (func, malloc_count, free_count, malloc_count + free_count))"

definition memory_stats :: "str list \<Rightarrow> analyzer \<Rightarrow> mem_stat list" where
  "memory_stats funcs st =
     sorted_desc (\<lambda>x. snd (snd (snd x)))
       (filter (\<lambda>x. snd (snd (snd x)) > 0) (map (stat_of st) funcs))"

text \<open>An enumeration of \<open>set(malloc_counts.keys()) | set(free_counts.keys())\<close>.\<close>

definition enumerates :: "str list \<Rightarrow> analyzer \<Rightarrow> bool" where
  "enumerates funcs st =
     (distinct funcs \<and> set funcs = fst ` set (malloc_counts st) \<union> fst ` set (free_counts st))"

text \<open>The ratio of frees to allocations and its classification; \<open>None\<close> when
  \<open>total_malloc > 0\<close> fails and nothing is printed. \<open>Neutral\<close> is the case in which the ratio
  is printed with no message.\<close>

datatype ratio_note = LeakRisk | CacheReleaseOrSkew | Neutral

definition release_ratio :: "int \<Rightarrow> int \<Rightarrow> py_error + (real \<times> ratio_note) option" where
  "release_ratio total_malloc total_free =
     (if total_malloc > 0
      then (case truediv total_free total_malloc of
              Inl e \<Rightarrow> Inl e
            | Inr ratio \<Rightarrow>
                Inr (Some (ratio, if ratio < float_0_8 then LeakRisk
                                  else if ratio > float_1_2 then CacheReleaseOrSkew
                                  else Neutral)))
      else Inr None)"

text \<open>The loop that collects the leak candidates, and the sort by the difference.\<close>

fun collect_leaks :: "mem_stat list \<Rightarrow> mem_stat list" where
  "collect_leaks [] = []"
| "collect_leaks ((func, malloc, free, tot) # rest) =
     (if malloc > 0 \<and> free > 0
      then (if malloc > free * 2 \<and> malloc - free > 10
            then (func, malloc, free, malloc - free) # collect_leaks rest
            else collect_leaks rest)
      else collect_leaks rest)"

definition leak_candidates :: "mem_stat list \<Rightarrow> mem_stat list" where
  "leak_candidates ms = sorted_desc (\<lambda>x. snd (snd (snd x))) (collect_leaks ms)"

text \<open>The rows of the report: of \<open>memory_stats\<close>, of the leak candidates (with the ratio
  \<open>free / malloc if malloc > 0 else 0\<close>) and of the hotspots.\<close>

definition stat_row ::
  "int \<Rightarrow> mem_stat \<Rightarrow> py_error + (str \<times> (int \<times> pyfloat) \<times> (int \<times> pyfloat) \<times> (int \<times> pyfloat))" where
  "stat_row tot x =
     (case x of (func, malloc, free, t) \<Rightarrow>
        bind_err (guarded_percentage malloc tot) (\<lambda>malloc_pct.
        bind_err (guarded_percentage free tot) (\<lambda>free_pct.
        bind_err (guarded_percentage t tot) (\<lambda>total_pct.
          Inr (func, (malloc, malloc_pct), (free, free_pct), (t, total_pct))))))"

definition leak_row :: "mem_stat \<Rightarrow> py_error + (str \<times> int \<times> int \<times> int \<times> real)" where
  "leak_row x =
     (case x of (func, malloc, free, diff) \<Rightarrow>
        bind_err (if malloc > 0 then truediv free malloc else Inr 0) (\<lambda>ratio.
          Inr (func, malloc, free, diff, ratio)))"

definition hotspot_row :: "int \<Rightarrow> str \<times> int \<Rightarrow> py_error + (str \<times> int \<times> pyfloat)" where
  "hotspot_row tot x =
     (case x of (func, n) \<Rightarrow>
        bind_err (guarded_percentage n tot) (\<lambda>pct. Inr (func, n, pct)))"

record memory_report =
  stats_rows :: "(str \<times> (int \<times> pyfloat) \<times> (int \<times> pyfloat) \<times> (int \<times> pyfloat)) list"
  totals :: "(int \<times> pyfloat) \<times> (int \<times> pyfloat)"
  ratio_line :: "(real \<times> ratio_note) option"
  leak_rows :: "(str \<times> int \<times> int \<times> int \<times> real) list"
  malloc_hotspots :: "(str \<times> int \<times> pyfloat) list"
  free_hotspots :: "(str \<times> int \<times> pyfloat) list"

text \<open>\<open>print_memory_analysis\<close>, in the order of the source: the rows of \<open>memory_stats\<close>,
  the totals with their unguarded percentages, the ratio, the leak candidates, the
  hotspots. \<open>Inr None\<close> when \<open>memory_stats\<close> is empty and only the count of memory
  functions is printed.\<close>

definition print_memory_analysis :: "str list \<Rightarrow> analyzer \<Rightarrow> py_error + memory_report option" where
  "print_memory_analysis funcs st =
     (let ms = memory_stats funcs st; tot = total_samples st
      in if ms = [] then Inr None
         else
           bind_err (for_each (stat_row tot) (take 20 ms)) (\<lambda>rows.
           let total_malloc = sum_values (malloc_counts st);
               total_free = sum_values (free_counts st)
           in bind_err (percentage total_malloc tot) (\<lambda>malloc_pct.
              bind_err (percentage total_free tot) (\<lambda>free_pct.
              bind_err (release_ratio total_malloc total_free) (\<lambda>ratio.
              bind_err (for_each leak_row (take 10 (leak_candidates ms))) (\<lambda>leaks.
              bind_err (for_each (hotspot_row tot)
                          (take 10 (sorted_desc snd
                             (map (\<lambda>x. (fst x, fst (snd x)))
                                (filter (\<lambda>x. fst (snd x) > 0) ms))))) (\<lambda>mh.
              bind_err (for_each (hotspot_row tot)
                          (take 10 (sorted_desc snd
                             (map (\<lambda>x. (fst x, fst (snd (snd x))))
                                (filter (\<lambda>x. fst (snd (snd x)) > 0) ms))))) (\<lambda>fh.
                Inr (Some \<lparr> stats_rows = rows,
                             totals = ((total_malloc, malloc_pct), (total_free, free_pct)),
                             ratio_line = ratio, leak_rows = leaks,
                             malloc_hotspots = mh, free_hotspots = fh \<rparr>)))))))))"

section \<open>The line parser as the specification words it\<close>

text \<open>
  The rule of the specification for a trimmed, non-empty line: split at the last semicolon
  into stack string and weight string; with no semicolon, split at the last space; when
  the trailing token is not an integer (or there is nothing to split at), the whole line
  is the stack string and the weight is 1. \<open>cut_last c s\<close> is the pair around the last
  \<open>c\<close> of \<open>s\<close>.
\<close>

fun cut_last :: "'a \<Rightarrow> 'a list \<Rightarrow> ('a list \<times> 'a list) option" where
  "cut_last c [] = None"
| "cut_last c (x # xs) =
     (case cut_last c xs of
        Some (a, b) \<Rightarrow> Some (x # a, b)
      | None \<Rightarrow> if x = c then Some ([], xs) else None)"

definition spec_sample :: "interpreter \<Rightarrow> str \<Rightarrow> sample" where
  "spec_sample py line =
     (let cut = (case cut_last semicolon line of
                   Some ab \<Rightarrow> Some ab
                 | None \<Rightarrow> cut_last space line)
      in case cut of
           None \<Rightarrow> (split semicolon line, 1)
         | Some (stack_string, weight_string) \<Rightarrow>
             (case py_int py weight_string of
                Some w \<Rightarrow> (split semicolon stack_string, w)
              | None \<Rightarrow> (split semicolon line, 1)))"

section \<open>The categorizer as the specification words it\<close>

text \<open>The bucket of a frame name: the category of the first pair, in the configured
  order, whose substring the name contains; the fallback bucket when there is none.\<close>

definition spec_category :: "(str \<times> str) list \<Rightarrow> str \<Rightarrow> str" where
  "spec_category cats func =
     (case find (\<lambda>cp. py_in (snd cp) func) cats of
        Some cp \<Rightarrow> fst cp
      | None \<Rightarrow> other)"

section \<open>Facts about the string operations\<close>

lemma split_not_Nil: "split c s \<noteq> []"
  by (induction s) (auto split: list.splits)

lemma split_no_separator: "c \<notin> set s \<Longrightarrow> split c s = [s]"
  by (induction s) auto

lemma cut_last_None: "cut_last c s = None \<longleftrightarrow> c \<notin> set s"
  by (induction s) (auto split: option.splits)

lemma cut_last_Some: "cut_last c s = Some (a, b) \<longleftrightarrow> s = a @ c # b \<and> c \<notin> set b"
proof (induction s arbitrary: a b)
  case Nil
  then show ?case by simp
next
  case (Cons x xs)
  show ?case
  proof (cases "cut_last c xs")
    case None
    then have "c \<notin> set xs" by (simp add: cut_last_None)
    with None show ?thesis
      by (cases a) (auto simp: Cons_eq_append_conv)
  next
    case (Some p)
    obtain a' b' where p: "p = (a', b')" by (cases p)
    with Some Cons.IH [of a' b'] have xs: "xs = a' @ c # b'" "c \<notin> set b'" by auto
    show ?thesis
    proof
      assume "cut_last c (x # xs) = Some (a, b)"
      with Some p xs show "x # xs = a @ c # b \<and> c \<notin> set b" by auto
    next
      assume r: "x # xs = a @ c # b \<and> c \<notin> set b"
      show "cut_last c (x # xs) = Some (a, b)"
      proof (cases a)
        case Nil
        with r have "xs = b" "c \<notin> set xs" by auto
        then have "cut_last c xs = None" by (simp add: cut_last_None)
        with Some show ?thesis by simp
      next
        case (Cons y ys)
        with r have "xs = ys @ c # b" "c \<notin> set b" "y = x" by auto
        then have "cut_last c xs = Some (ys, b)" using Cons.IH [of ys b] by simp
        with Cons \<open>y = x\<close> show ?thesis by simp
      qed
    qed
  qed
qed

lemma rsplit1_append: "c \<notin> set b \<Longrightarrow> rsplit1 c (a @ c # b) = [a, b]"
proof -
  assume nb: "c \<notin> set b"
  have "takeWhile (\<lambda>x. x \<noteq> c) (rev b @ c # rev a) = rev b @ takeWhile (\<lambda>x. x \<noteq> c) (c # rev a)"
    by (rule takeWhile_append2) (use nb in auto)
  then have tw: "takeWhile (\<lambda>x. x \<noteq> c) (rev b @ c # rev a) = rev b"
    by simp
  have "dropWhile (\<lambda>x. x \<noteq> c) (rev b @ c # rev a) = dropWhile (\<lambda>x. x \<noteq> c) (c # rev a)"
    by (rule dropWhile_append2) (use nb in auto)
  then have dw: "dropWhile (\<lambda>x. x \<noteq> c) (rev b @ c # rev a) = c # rev a"
    by simp
  show ?thesis
    using tw dw by (simp add: rsplit1_def)
qed

lemma rsplit1_cut_last:
  "rsplit1 c s = (case cut_last c s of Some (a, b) \<Rightarrow> [a, b] | None \<Rightarrow> [s])"
proof (cases "cut_last c s")
  case None
  then have "c \<notin> set s" by (simp add: cut_last_None)
  then have "rsplit1 c s = [s]" by (simp add: rsplit1_def)
  with None show ?thesis by simp
next
  case (Some p)
  obtain a b where p: "p = (a, b)" by (cases p)
  with Some have "s = a @ c # b" "c \<notin> set b" by (simp_all add: cut_last_Some)
  then have "rsplit1 c s = [a, b]" by (simp add: rsplit1_append)
  with Some p show ?thesis by simp
qed

lemma py_in_iff: "py_in sub s \<longleftrightarrow> (\<exists>ps ss. s = ps @ sub @ ss)"
proof (induction s)
  case Nil
  then show ?case by auto
next
  case (Cons c cs)
  show ?case
  proof
    assume "py_in sub (c # cs)"
    then consider "prefix sub (c # cs)" | "py_in sub cs" by auto
    then show "\<exists>ps ss. c # cs = ps @ sub @ ss"
    proof cases
      case 1
      then obtain ss where "c # cs = sub @ ss" by (auto simp: prefix_def)
      then have "c # cs = [] @ sub @ ss" by simp
      then show ?thesis by blast
    next
      case 2
      with Cons.IH obtain ps ss where "cs = ps @ sub @ ss" by auto
      then have "c # cs = (c # ps) @ sub @ ss" by simp
      then show ?thesis by blast
    qed
  next
    assume "\<exists>ps ss. c # cs = ps @ sub @ ss"
    then obtain ps ss where e: "c # cs = ps @ sub @ ss" by auto
    show "py_in sub (c # cs)"
    proof (cases ps)
      case Nil
      with e have "prefix sub (c # cs)" by (auto simp: prefix_def)
      then show ?thesis by simp
    next
      case (Cons p ps')
      with e have "cs = ps' @ sub @ ss" by simp
      with Cons.IH have "py_in sub cs" by blast
      then show ?thesis by simp
    qed
  qed
qed

text \<open>A string that neither begins nor ends with whitespace is its own \<open>strip\<close>.\<close>

lemma strip_id:
  assumes "s \<noteq> []" "\<not> is_space (hd s)" "\<not> is_space (last s)"
  shows "strip s = s"
proof -
  from assms(1,2) have "dropWhile is_space s = s"
    by (cases s) simp_all
  moreover from assms(1,3) have "dropWhile is_space (rev s) = rev s"
    by (cases "rev s") (simp_all add: hd_rev [symmetric])
  ultimately show ?thesis by (simp add: strip_def)
qed

section \<open>Facts about \<open>int\<close>\<close>

lemmas int_eval = py_int_def unsigned_int_def exceeds_limit_def to_ascii_def c_isspace_def
  is_space_def is_digit_def digits_value_def digit_val_def lit_def Let_def

text \<open>What \<open>int\<close> accepts and refuses, on the examples checked against the interpreter.\<close>

lemma py_int_examples:
  "py_int py (lit ''5'') = Some 5"
  "py_int py (lit '' 12 '') = Some 12"
  "py_int py ([0x09] @ lit ''5'' @ [0x0A]) = Some 5"
  "py_int py (lit ''007'') = Some 7"
  "py_int py (lit ''+5'') = Some 5"
  "py_int py (lit ''-5'') = Some (- 5)"
  "py_int py (lit ''1_0'') = Some 10"
  "py_int py (lit ''_1'') = None"
  "py_int py (lit ''1_'') = None"
  "py_int py (lit ''1__0'') = None"
  "py_int py (lit ''- 5'') = None"
  "py_int py (lit ''+-5'') = None"
  "py_int py (lit ''0x10'') = None"
  "py_int py (lit ''nine'') = None"
  "py_int py [] = None"
  "py_int py (lit ''  '') = None"
  "py_int py (0x1C # lit ''5'') = None"
  "py_int py (lit ''5'' @ [0x1C]) = None"
  "py_int py (lit ''5'' @ [0x00]) = None"
  "py_int py (0xA0 # lit ''5'') = Some 5"
  "py_int py (0x85 # lit ''5'') = Some 5"
  "py_int py ([0x3000, 0x20] @ lit ''5'') = Some 5"
  "py_int py ([0x1C] @ lit ''5'' @ [0xA0]) = None"
  "py_int example_interpreter [0xFF15] = Some 5"
  "py_int example_interpreter [0xFF11, 0x32, 0xFF13] = Some 123"
  by (simp_all add: int_eval example_interpreter_def)

lemma digits_ok_replicate:
  "is_digit d \<Longrightarrow> d \<noteq> 0x5F \<Longrightarrow> digits_ok (replicate (Suc n) d)"
  by (induction n) simp_all

lemma py_int_replicate:
  assumes "is_digit d" "d \<noteq> 0x5F"
  shows "py_int py (replicate (Suc n) d) =
           (if exceeds_limit py (Suc n) then None else Some (digits_value (replicate (Suc n) d)))"
proof -
  from assms(1) have d: "d < 128" "\<not> c_isspace d" "d \<noteq> 0x2D" "d \<noteq> 0x2B"
    by (auto simp: is_digit_def c_isspace_def)
  then have m: "map (to_ascii py) (replicate (Suc n) d) = replicate (Suc n) d"
    by (simp add: to_ascii_def)
  have t: "rev (dropWhile c_isspace (rev (dropWhile c_isspace (replicate (Suc n) d)))) =
           replicate (Suc n) d"
  proof -
    have a: "dropWhile c_isspace (replicate (Suc n) d) = replicate (Suc n) d"
      using d(2) by simp
    have b: "rev (replicate (Suc n) d) = replicate (Suc n) d"
      by (rule rev_replicate)
    show ?thesis by (simp only: a b)
  qed
  have f: "filter (\<lambda>c. c \<noteq> 0x5F) (replicate (Suc n) d) = replicate (Suc n) d"
    using assms(2) by simp
  have u: "unsigned_int py (replicate (Suc n) d) =
           (if exceeds_limit py (Suc n) then None else Some (digits_value (replicate (Suc n) d)))"
    unfolding unsigned_int_def f using digits_ok_replicate [OF assms] by simp
  show ?thesis
    unfolding py_int_def m t Let_def using d(3,4) u by simp
qed

section \<open>The parser computes the sample of the specification\<close>

lemmas line_eval = parse_line_def strip_def rsplit1_def int_eval

lemma parse_line_spec:
  "parse_line py raw = (if strip raw = [] then None else Some (spec_sample py (strip raw)))"
proof (cases "strip raw = []")
  case True
  then show ?thesis by (simp add: parse_line_def)
next
  case ne: False
  show ?thesis
  proof (cases "cut_last semicolon (strip raw)")
    case (Some p)
    obtain a b where p: "p = (a, b)" by (cases p)
    with Some ne show ?thesis
      by (simp add: parse_line_def spec_sample_def Let_def rsplit1_cut_last
               split: option.splits)
  next
    case None
    show ?thesis
    proof (cases "cut_last space (strip raw)")
      case n2: None
      then have "space \<notin> set (strip raw)" by (simp add: cut_last_None)
      with None n2 ne show ?thesis
        by (simp add: parse_line_def spec_sample_def Let_def rsplit1_cut_last)
    next
      case (Some p)
      obtain a b where p: "p = (a, b)" by (cases p)
      with Some have "space \<in> set (strip raw)" by (simp add: cut_last_Some)
      with None Some p ne show ?thesis
        by (simp add: parse_line_def spec_sample_def Let_def rsplit1_cut_last
                 split: option.splits)
    qed
  qed
qed

lemma parse_line_stack_not_Nil: "parse_line py raw = Some smp \<Longrightarrow> fst smp \<noteq> []"
  by (auto simp: parse_line_def Let_def split_not_Nil split: if_splits)

lemma parse_line_semicolon:
  assumes "strip raw = a @ semicolon # b" "semicolon \<notin> set b"
  shows "parse_line py raw =
          Some (case py_int py b of
                  Some w \<Rightarrow> (split semicolon a, w)
                | None \<Rightarrow> (split semicolon (strip raw), 1))"
proof -
  from assms have "cut_last semicolon (strip raw) = Some (a, b)"
    by (simp add: cut_last_Some)
  moreover from assms have "strip raw \<noteq> []" by simp
  ultimately show ?thesis
    by (simp add: parse_line_spec spec_sample_def split: option.splits)
qed

text \<open>
  Claim C4. A line that is not empty once trimmed yields exactly one sample, the one the
  rule of the specification gives: the trimmed line is cut at its last semicolon, or,
  when it has no semicolon, at its last space; when the token after the cut is an integer
  for \<open>int\<close> it is the weight and the part before the cut, split at semicolons, is the
  stack; otherwise, and when there is nothing to cut at, the whole trimmed line split at
  semicolons is the stack and the weight is 1. The line \<open>a;b;c nine\<close> gives the stack
  \<open>a\<close>, \<open>b\<close>, \<open>c nine\<close> with weight 1 and the line \<open>onlyonefield\<close> gives the stack
  \<open>onlyonefield\<close> with weight 1. The parser is a total function: no line ends the run.
  Trimming and \<open>int\<close> are the interpreter's: the separator 0x1C before the digits makes
  the token no integer, a no-break space around the line is trimmed, a Unicode decimal
  digit is a digit, and a token of more digits than the interpreter's limit is no integer.
\<close>

theorem parse_line_rules:
  "parse_line py raw = (if strip raw = [] then None else Some (spec_sample py (strip raw)))
   \<and> (strip raw = a @ semicolon # b \<and> semicolon \<notin> set b \<longrightarrow>
        parse_line py raw =
          Some (case py_int py b of
                  Some w \<Rightarrow> (split semicolon a, w)
                | None \<Rightarrow> (split semicolon (strip raw), 1)))
   \<and> (semicolon \<notin> set (strip raw) \<and> strip raw = a @ space # b \<and> space \<notin> set b \<longrightarrow>
        parse_line py raw =
          Some (case py_int py b of
                  Some w \<Rightarrow> (split semicolon a, w)
                | None \<Rightarrow> (split semicolon (strip raw), 1)))
   \<and> (strip raw \<noteq> [] \<and> semicolon \<notin> set (strip raw) \<and> space \<notin> set (strip raw) \<longrightarrow>
        parse_line py raw = Some ([strip raw], 1))
   \<and> parse_line py (lit ''a;b;c nine'') = Some ([lit ''a'', lit ''b'', lit ''c nine''], 1)
   \<and> parse_line py (lit ''onlyonefield'') = Some ([lit ''onlyonefield''], 1)
   \<and> parse_line py (lit ''a;'' @ [0x1C] @ lit ''5'') = Some ([lit ''a'', 0x1C # lit ''5''], 1)
   \<and> parse_line py ([0xA0] @ lit ''a;5'' @ [0xA0]) = Some ([lit ''a''], 5)
   \<and> (unicode_decimal py 0xFF15 = Some 5 \<longrightarrow>
        parse_line py (lit ''a;'' @ [0xFF15]) = Some ([lit ''a''], 5))
   \<and> (max_str_digits py = 4300 \<longrightarrow>
        parse_line py (lit ''a;'' @ replicate 4300 0x31) =
          Some ([lit ''a''], digits_value (replicate 4300 0x31))
        \<and> parse_line py (lit ''a;'' @ replicate 4301 0x31) =
          Some ([lit ''a'', replicate 4301 0x31], 1))"
proof -
  have space: "parse_line py raw =
          Some (case py_int py b of
                  Some w \<Rightarrow> (split semicolon a, w)
                | None \<Rightarrow> (split semicolon (strip raw), 1))"
    if h: "semicolon \<notin> set (strip raw)" "strip raw = a @ space # b" "space \<notin> set b"
  proof -
    from h have "cut_last semicolon (strip raw) = None"
      by (simp add: cut_last_None)
    moreover from h have "cut_last space (strip raw) = Some (a, b)"
      by (simp add: cut_last_Some)
    moreover from h have "strip raw \<noteq> []" by simp
    ultimately show ?thesis
      by (simp add: parse_line_spec spec_sample_def split: option.splits)
  qed
  have whole: "parse_line py raw = Some ([strip raw], 1)"
    if h: "strip raw \<noteq> []" "semicolon \<notin> set (strip raw)" "space \<notin> set (strip raw)"
  proof -
    from h have "cut_last semicolon (strip raw) = None" "cut_last space (strip raw) = None"
      by (simp_all add: cut_last_None)
    with h show ?thesis
      by (simp add: parse_line_spec spec_sample_def split_no_separator)
  qed
  have e1: "parse_line py (lit ''a;b;c nine'') = Some ([lit ''a'', lit ''b'', lit ''c nine''], 1)"
    by (simp add: line_eval)
  have e2: "parse_line py (lit ''onlyonefield'') = Some ([lit ''onlyonefield''], 1)"
    by (simp add: line_eval)
  have e3: "parse_line py (lit ''a;'' @ [0x1C] @ lit ''5'') = Some ([lit ''a'', 0x1C # lit ''5''], 1)"
    by (simp add: line_eval)
  have e4: "parse_line py ([0xA0] @ lit ''a;5'' @ [0xA0]) = Some ([lit ''a''], 5)"
    by (simp add: line_eval)
  have e5: "parse_line py (lit ''a;'' @ [0xFF15]) = Some ([lit ''a''], 5)"
    if "unicode_decimal py 0xFF15 = Some 5"
    using that by (simp add: line_eval)
  have long: "parse_line py (lit ''a;'' @ replicate (Suc n) 0x31) =
          Some (case py_int py (replicate (Suc n) 0x31) of
                  Some w \<Rightarrow> (split semicolon (lit ''a''), w)
                | None \<Rightarrow> (split semicolon (lit ''a;'' @ replicate (Suc n) 0x31), 1))" for n
  proof -
    have id: "strip (lit ''a;'' @ replicate (Suc n) 0x31) = lit ''a;'' @ replicate (Suc n) 0x31"
      by (rule strip_id) (simp_all add: lit_def is_space_def)
    then have cut: "strip (lit ''a;'' @ replicate (Suc n) 0x31) =
               lit ''a'' @ semicolon # replicate (Suc n) 0x31"
      by (simp add: lit_def)
    have "semicolon \<notin> set (replicate (Suc n) 0x31)"
      by simp
    with cut have "parse_line py (lit ''a;'' @ replicate (Suc n) 0x31) =
          Some (case py_int py (replicate (Suc n) 0x31) of
                  Some w \<Rightarrow> (split semicolon (lit ''a''), w)
                | None \<Rightarrow> (split semicolon (strip (lit ''a;'' @ replicate (Suc n) 0x31)), 1))"
      by (rule parse_line_semicolon)
    then show ?thesis
      unfolding id .
  qed
  have sp: "split semicolon (lit ''a;'' @ replicate k 0x31) = [lit ''a'', replicate k 0x31]" for k
    by (simp add: lit_def split_no_separator)
  have e6: "parse_line py (lit ''a;'' @ replicate 4300 0x31) =
          Some ([lit ''a''], digits_value (replicate 4300 0x31))
        \<and> parse_line py (lit ''a;'' @ replicate 4301 0x31) =
          Some ([lit ''a'', replicate 4301 0x31], 1)"
    if m: "max_str_digits py = 4300"
  proof -
    have d: "is_digit 0x31" "(0x31 :: nat) \<noteq> 0x5F" by (simp_all add: is_digit_def)
    have "py_int py (replicate (Suc 4299) 0x31) = Some (digits_value (replicate (Suc 4299) 0x31))"
      unfolding py_int_replicate [OF d] using m by (simp add: exceeds_limit_def)
    moreover have "py_int py (replicate (Suc 4300) 0x31) = None"
      unfolding py_int_replicate [OF d] using m by (simp add: exceeds_limit_def)
    moreover have "Suc 4299 = 4300" "Suc 4300 = 4301" by simp_all
    ultimately show ?thesis
      using long [of 4299] long [of 4300] sp [of 4301]
      by (simp add: lit_def split_no_separator)
  qed
  show ?thesis
    using parse_line_spec parse_line_semicolon [of raw a b py] space whole e1 e2 e3 e4 e5 e6
    by blast
qed

theorem parse_line_rules_witness:
  "strip (lit ''main;foo;42'') = lit ''main;foo'' @ semicolon # lit ''42''
   \<and> semicolon \<notin> set (lit ''42'')
   \<and> parse_line example_interpreter (lit ''main;foo;42'') = Some ([lit ''main'', lit ''foo''], 42)
   \<and> semicolon \<notin> set (strip (lit ''  main 7 ''))
   \<and> strip (lit ''  main 7 '') = lit ''main'' @ space # lit ''7''
   \<and> parse_line example_interpreter (lit ''  main 7 '') = Some ([lit ''main''], 7)
   \<and> parse_line example_interpreter (lit ''solo'') = Some ([lit ''solo''], 1)
   \<and> unicode_decimal example_interpreter 0xFF15 = Some 5
   \<and> parse_line example_interpreter (lit ''a;'' @ [0xFF15]) = Some ([lit ''a''], 5)
   \<and> max_str_digits example_interpreter = 4300
   \<and> parse_line example_interpreter (lit ''a;'' @ replicate 4301 0x31) =
       Some ([lit ''a'', replicate 4301 0x31], 1)"
proof -
  let ?py = example_interpreter
  have s1: "strip (lit ''main;foo;42'') = lit ''main;foo'' @ semicolon # lit ''42''"
    by (simp add: strip_def is_space_def lit_def)
  have n1: "semicolon \<notin> set (lit ''42'')"
    by (simp add: lit_def)
  have s2: "strip (lit ''  main 7 '') = lit ''main'' @ space # lit ''7''"
    by (simp add: strip_def is_space_def lit_def)
  have n2: "semicolon \<notin> set (strip (lit ''  main 7 ''))" "space \<notin> set (lit ''7'')"
    unfolding s2 by (simp_all add: lit_def)
  have s3: "strip (lit ''solo'') = lit ''solo''"
    by (simp add: strip_def is_space_def lit_def)
  have n3: "strip (lit ''solo'') \<noteq> []" "semicolon \<notin> set (strip (lit ''solo''))"
    "space \<notin> set (strip (lit ''solo''))"
    unfolding s3 by (simp_all add: lit_def)
  have i1: "py_int ?py (lit ''42'') = Some 42" "py_int ?py (lit ''7'') = Some 7"
    by (simp_all add: int_eval)
  have p1: "parse_line ?py (lit ''main;foo;42'') = Some ([lit ''main'', lit ''foo''], 42)"
    using parse_line_rules [of ?py "lit ''main;foo;42''" "lit ''main;foo''" "lit ''42''",
        THEN conjunct2, THEN conjunct1] s1 n1 i1
    by (simp add: lit_def)
  have p2: "parse_line ?py (lit ''  main 7 '') = Some ([lit ''main''], 7)"
    using parse_line_rules [of ?py "lit ''  main 7 ''" "lit ''main''" "lit ''7''",
        THEN conjunct2, THEN conjunct2, THEN conjunct1] s2 n2 i1
    by (simp add: lit_def)
  have p3: "parse_line ?py (lit ''solo'') = Some ([lit ''solo''], 1)"
    using parse_line_rules [of ?py "lit ''solo''",
        THEN conjunct2, THEN conjunct2, THEN conjunct2, THEN conjunct1] n3
    unfolding s3 by blast
  have u: "unicode_decimal ?py 0xFF15 = Some 5"
    by (simp add: example_interpreter_def)
  have p4: "parse_line ?py (lit ''a;'' @ [0xFF15]) = Some ([lit ''a''], 5)"
    using parse_line_rules [of ?py,
        THEN conjunct2, THEN conjunct2, THEN conjunct2, THEN conjunct2, THEN conjunct2,
        THEN conjunct2, THEN conjunct2, THEN conjunct2, THEN conjunct1] u
    by blast
  have m: "max_str_digits ?py = 4300"
    by (simp add: example_interpreter_def)
  have p5: "parse_line ?py (lit ''a;'' @ replicate 4301 0x31) =
       Some ([lit ''a'', replicate 4301 0x31], 1)"
    using parse_line_rules [of ?py,
        THEN conjunct2, THEN conjunct2, THEN conjunct2, THEN conjunct2, THEN conjunct2,
        THEN conjunct2, THEN conjunct2, THEN conjunct2, THEN conjunct2] m
    by blast
  from s1 n1 p1 n2(1) s2 p2 p3 u p4 m p5 show ?thesis
    by blast
qed

section \<open>Facts about the tallies\<close>

lemma sum_values_add_count: "sum_values (add_count m k v) = sum_values m + v"
  by (induction m k v rule: add_count.induct) (auto simp: sum_values_def)

lemma keys_add_count: "fst ` set (add_count m k v) = insert k (fst ` set m)"
  by (induction m k v rule: add_count.induct) auto

lemma distinct_add_count:
  "distinct (map fst m) \<Longrightarrow> distinct (map fst (add_count m k v))"
proof (induction m k v rule: add_count.induct)
  case (1 k v)
  then show ?case by simp
next
  case (2 k' n m k v)
  then show ?case
    using keys_add_count [of m k v] by (auto simp: image_iff)
qed

lemma get_count_add_count:
  "get_count (add_count m k v) k' = get_count m k' + (if k' = k then v else 0)"
  by (induction m k v rule: add_count.induct) (auto simp: get_count_def)

lemma filter_add_count:
  "filter (\<lambda>x. fst x \<noteq> []) (add_count m k v) =
     (if k \<noteq> [] then add_count (filter (\<lambda>x. fst x \<noteq> []) m) k v
      else filter (\<lambda>x. fst x \<noteq> []) m)"
  by (induction m k v rule: add_count.induct) auto

lemma sum_values_keys:
  "distinct (map fst m) \<Longrightarrow> (\<Sum>k\<in>fst ` set m. get_count m k) = sum_values m"
proof (induction m)
  case Nil
  then show ?case by (simp add: sum_values_def)
next
  case (Cons p m)
  obtain k n where p: "p = (k, n)" by (cases p)
  from Cons.prems p have k: "k \<notin> fst ` set m" and d: "distinct (map fst m)" by auto
  have same: "get_count (p # m) x = get_count m x" if "x \<in> fst ` set m" for x
    using that k p by (auto simp: get_count_def)
  have "(\<Sum>x\<in>fst ` set (p # m). get_count (p # m) x) =
        get_count (p # m) k + (\<Sum>x\<in>fst ` set m. get_count (p # m) x)"
    using k p by simp
  also have "(\<Sum>x\<in>fst ` set m. get_count (p # m) x) = (\<Sum>x\<in>fst ` set m. get_count m x)"
    by (rule sum.cong) (simp_all add: same)
  also have "get_count (p # m) k = n"
    using p by (simp add: get_count_def)
  finally show ?case
    using Cons.IH [OF d] p by (simp add: sum_values_def)
qed

lemma sum_values_filter_empty:
  "distinct (map fst m) \<Longrightarrow>
   sum_values (filter (\<lambda>x. fst x \<noteq> []) m) = sum_values m - get_count m []"
proof (induction m)
  case Nil
  then show ?case by (simp add: sum_values_def get_count_def)
next
  case (Cons p m)
  obtain k n where p: "p = (k, n)" by (cases p)
  show ?case
  proof (cases "k = []")
    case True
    with Cons.prems p have "[] \<notin> fst ` set m" by auto
    then have "filter (\<lambda>x. fst x \<noteq> []) m = m"
      by (induction m) auto
    with True p show ?thesis by (simp add: sum_values_def get_count_def)
  next
    case False
    with Cons p show ?thesis by (simp add: sum_values_def get_count_def)
  qed
qed

lemma sum_values_count_inclusive:
  "sum_values (count_inclusive m stack w) = sum_values m + w * int (length stack)"
  unfolding count_inclusive_def
  by (induction stack arbitrary: m) (auto simp: sum_values_add_count algebra_simps)

lemma sum_values_count_funcs:
  "sum_values (count_funcs m stack w) =
     sum_values m + w * int (length (filter (\<lambda>f. f \<noteq> []) stack))"
  unfolding count_funcs_def
  by (induction stack arbitrary: m) (auto simp: sum_values_add_count algebra_simps)

lemma keys_count_inclusive:
  "fst ` set (count_inclusive m stack w) = fst ` set m \<union> set stack"
  unfolding count_inclusive_def
  by (induction stack arbitrary: m) (auto simp: keys_add_count)

lemma distinct_count_inclusive:
  "distinct (map fst m) \<Longrightarrow> distinct (map fst (count_inclusive m stack w))"
  unfolding count_inclusive_def
  by (induction stack arbitrary: m) (auto simp: distinct_add_count)

lemma distinct_count_funcs:
  "distinct (map fst m) \<Longrightarrow> distinct (map fst (count_funcs m stack w))"
  unfolding count_funcs_def
  by (induction stack arbitrary: m) (auto simp: distinct_add_count)

lemma filter_count_inclusive:
  "filter (\<lambda>x. fst x \<noteq> []) (count_inclusive m stack w) =
     count_funcs (filter (\<lambda>x. fst x \<noteq> []) m) stack w"
  unfolding count_inclusive_def count_funcs_def
  by (induction stack arbitrary: m) (auto simp: filter_add_count)

lemma get_count_count_inclusive:
  "get_count (count_inclusive m stack w) f = get_count m f + w * int (count_list stack f)"
  unfolding count_inclusive_def
  by (induction stack arbitrary: m) (auto simp: get_count_add_count algebra_simps)

lemma get_count_count_funcs:
  "f \<noteq> [] \<Longrightarrow>
   get_count (count_funcs m stack w) f = get_count m f + w * int (count_list stack f)"
  unfolding count_funcs_def
  by (induction stack arbitrary: m) (auto simp: get_count_add_count algebra_simps)

lemma map_of_add_edge:
  "map_of (add_edge m k x) c =
     (if c = k then Some (insert x (case map_of m k of Some s \<Rightarrow> s | None \<Rightarrow> {}))
      else map_of m c)"
  by (induction m k x rule: add_edge.induct) auto

lemma callees_add_edge:
  "callees (add_edge m k x) c = (if c = k then insert x (callees m c) else callees m c)"
  by (simp add: callees_def map_of_add_edge)

lemma callees_foldl_add_edge:
  "callees (foldl (\<lambda>m i. add_edge m (S ! i) (S ! (i + 1))) m js) c =
     callees m c \<union> (\<lambda>i. S ! (i + 1)) ` {i \<in> set js. S ! i = c}"
proof (induction js arbitrary: m)
  case Nil
  then show ?case by simp
next
  case (Cons j js)
  have sel: "{i \<in> set (j # js). S ! i = c} =
             (if S ! j = c then insert j {i \<in> set js. S ! i = c} else {i \<in> set js. S ! i = c})"
    by auto
  have "callees (foldl (\<lambda>m i. add_edge m (S ! i) (S ! (i + 1))) m (j # js)) c =
        callees (add_edge m (S ! j) (S ! (j + 1))) c \<union>
          (\<lambda>i. S ! (i + 1)) ` {i \<in> set js. S ! i = c}"
    using Cons.IH [of "add_edge m (S ! j) (S ! (j + 1))"] by simp
  also have "callees (add_edge m (S ! j) (S ! (j + 1))) c =
        (if c = S ! j then insert (S ! (j + 1)) (callees m c) else callees m c)"
    by (rule callees_add_edge)
  finally show ?case
    unfolding sel by (cases "S ! j = c") auto
qed

lemma callees_record_relations:
  "callees (record_relations m S) c =
     callees m c \<union> (\<lambda>i. S ! (i + 1)) ` {i. i + 1 < length S \<and> S ! i = c}"
proof -
  have "{i \<in> set [0 ..< length S - 1]. S ! i = c} = {i. i + 1 < length S \<and> S ! i = c}"
    by auto
  then show ?thesis
    unfolding record_relations_def callees_foldl_add_edge by simp
qed

section \<open>The loop over the lines, as a fold over the accepted samples\<close>

lemma record_sample_line_count:
  "record_sample (st\<lparr>line_count := n\<rparr>) smp = (record_sample st smp)\<lparr>line_count := n\<rparr>"
  by (simp add: record_sample_def Let_def)

lemma parse_lines_samples:
  "parse_lines py st ls =
     (foldl record_sample st (samples_of py ls))\<lparr>line_count := line_count st + int (length ls)\<rparr>"
proof (induction ls arbitrary: st)
  case Nil
  then show ?case by (simp add: parse_lines_def samples_of_def)
next
  case (Cons l ls)
  have fold_lc: "foldl record_sample (s\<lparr>line_count := n\<rparr>) smps =
                 (foldl record_sample s smps)\<lparr>line_count := n\<rparr>" for s n smps
    by (induction smps arbitrary: s) (simp_all add: record_sample_line_count)
  have lc: "line_count (foldl record_sample s smps) = line_count s" for s smps
    by (induction smps arbitrary: s) (simp_all add: record_sample_def Let_def)
  show ?case
  proof (cases "parse_line py l")
    case None
    then show ?thesis
      using Cons.IH [of "st\<lparr>line_count := line_count st + 1\<rparr>"]
      by (simp add: parse_lines_def samples_of_def process_line_def fold_lc)
  next
    case (Some smp)
    then show ?thesis
      using Cons.IH [of "record_sample (st\<lparr>line_count := line_count st + 1\<rparr>) smp"]
      by (simp add: parse_lines_def samples_of_def process_line_def
            fold_lc record_sample_line_count lc)
  qed
qed

lemma samples_of_not_Nil: "smp \<in> set (samples_of py ls) \<Longrightarrow> fst smp \<noteq> []"
proof -
  assume "smp \<in> set (samples_of py ls)"
  then obtain l where "parse_line py l = Some smp"
    by (auto simp: samples_of_def map_filter_def)
  then show ?thesis by (rule parse_line_stack_not_Nil)
qed

section \<open>What one sample adds to the tallies\<close>

lemma record_sample_fields:
  assumes "fst smp \<noteq> []"
  shows "total_samples (record_sample st smp) = total_samples st + snd smp"
    and "exclusive_time (record_sample st smp) =
           add_count (exclusive_time st) (last (fst smp)) (snd smp)"
    and "leaf_counts (record_sample st smp) =
           add_count (leaf_counts st) (last (fst smp)) (snd smp)"
    and "inclusive_time (record_sample st smp) =
           count_inclusive (inclusive_time st) (fst smp) (snd smp)"
    and "func_counts (record_sample st smp) =
           count_funcs (func_counts st) (fst smp) (snd smp)"
    and "call_relations (record_sample st smp) =
           record_relations (call_relations st) (fst smp)"
    and "category_counts (record_sample st smp) = category_counts st"
    and "malloc_counts (record_sample st smp) =
           (if is_alloc (last (fst smp))
            then add_count (malloc_counts st) (last (fst smp)) (snd smp)
            else malloc_counts st)"
    and "free_counts (record_sample st smp) =
           (if \<not> is_alloc (last (fst smp)) \<and> is_free (last (fst smp))
            then add_count (free_counts st) (last (fst smp)) (snd smp)
            else free_counts st)"
    and "parsed_lines (record_sample st smp) = parsed_lines st + 1"
  using assms by (simp_all add: record_sample_def Let_def)

lemma foldl_record_sample_fields:
  assumes "\<forall>smp\<in>set smps. fst smp \<noteq> []"
  shows "total_samples (foldl record_sample st smps) = total_samples st + sum_list (map snd smps)"
    and "exclusive_time (foldl record_sample st smps) =
           foldl (\<lambda>m smp. add_count m (last (fst smp)) (snd smp)) (exclusive_time st) smps"
    and "leaf_counts (foldl record_sample st smps) =
           foldl (\<lambda>m smp. add_count m (last (fst smp)) (snd smp)) (leaf_counts st) smps"
    and "inclusive_time (foldl record_sample st smps) =
           foldl (\<lambda>m smp. count_inclusive m (fst smp) (snd smp)) (inclusive_time st) smps"
    and "func_counts (foldl record_sample st smps) =
           foldl (\<lambda>m smp. count_funcs m (fst smp) (snd smp)) (func_counts st) smps"
    and "category_counts (foldl record_sample st smps) = category_counts st"
    and "malloc_counts (foldl record_sample st smps) =
           foldl (\<lambda>m smp. if is_alloc (last (fst smp))
                            then add_count m (last (fst smp)) (snd smp) else m)
             (malloc_counts st) smps"
    and "free_counts (foldl record_sample st smps) =
           foldl (\<lambda>m smp. if \<not> is_alloc (last (fst smp)) \<and> is_free (last (fst smp))
                            then add_count m (last (fst smp)) (snd smp) else m)
             (free_counts st) smps"
    and "parsed_lines (foldl record_sample st smps) = parsed_lines st + int (length smps)"
  using assms
  by (induction smps arbitrary: st) (simp_all add: record_sample_fields)

text \<open>The tallies after \<open>parse_file\<close>, from the tallies before and the accepted samples.\<close>

lemma parse_file_with_fields:
  "total_samples (parse_file_with py cats st ls) =
     total_samples st + sum_list (map snd (samples_of py ls))"
  "exclusive_time (parse_file_with py cats st ls) =
     foldl (\<lambda>m smp. add_count m (last (fst smp)) (snd smp)) (exclusive_time st) (samples_of py ls)"
  "leaf_counts (parse_file_with py cats st ls) =
     foldl (\<lambda>m smp. add_count m (last (fst smp)) (snd smp)) (leaf_counts st) (samples_of py ls)"
  "inclusive_time (parse_file_with py cats st ls) =
     foldl (\<lambda>m smp. count_inclusive m (fst smp) (snd smp)) (inclusive_time st) (samples_of py ls)"
  "func_counts (parse_file_with py cats st ls) =
     foldl (\<lambda>m smp. count_funcs m (fst smp) (snd smp)) (func_counts st) (samples_of py ls)"
  "malloc_counts (parse_file_with py cats st ls) =
     foldl (\<lambda>m smp. if is_alloc (last (fst smp))
                      then add_count m (last (fst smp)) (snd smp) else m)
       (malloc_counts st) (samples_of py ls)"
  "free_counts (parse_file_with py cats st ls) =
     foldl (\<lambda>m smp. if \<not> is_alloc (last (fst smp)) \<and> is_free (last (fst smp))
                      then add_count m (last (fst smp)) (snd smp) else m)
       (free_counts st) (samples_of py ls)"
  "parsed_lines (parse_file_with py cats st ls) =
     parsed_lines st + int (length (samples_of py ls))"
  "category_counts (parse_file_with py cats st ls) =
     foldl (categorize_func cats) (category_counts st)
       (func_counts (parse_file_with py cats st ls))"
proof -
  have ne: "\<forall>smp\<in>set (samples_of py ls). fst smp \<noteq> []"
    by (auto dest: samples_of_not_Nil)
  note f = foldl_record_sample_fields [OF ne]
  show "total_samples (parse_file_with py cats st ls) =
     total_samples st + sum_list (map snd (samples_of py ls))"
    by (simp add: parse_file_with_def compute_categories_def parse_lines_samples f)
  show "exclusive_time (parse_file_with py cats st ls) =
     foldl (\<lambda>m smp. add_count m (last (fst smp)) (snd smp)) (exclusive_time st) (samples_of py ls)"
    by (simp add: parse_file_with_def compute_categories_def parse_lines_samples f)
  show "leaf_counts (parse_file_with py cats st ls) =
     foldl (\<lambda>m smp. add_count m (last (fst smp)) (snd smp)) (leaf_counts st) (samples_of py ls)"
    by (simp add: parse_file_with_def compute_categories_def parse_lines_samples f)
  show "inclusive_time (parse_file_with py cats st ls) =
     foldl (\<lambda>m smp. count_inclusive m (fst smp) (snd smp)) (inclusive_time st) (samples_of py ls)"
    by (simp add: parse_file_with_def compute_categories_def parse_lines_samples f)
  show "func_counts (parse_file_with py cats st ls) =
     foldl (\<lambda>m smp. count_funcs m (fst smp) (snd smp)) (func_counts st) (samples_of py ls)"
    by (simp add: parse_file_with_def compute_categories_def parse_lines_samples f)
  show "malloc_counts (parse_file_with py cats st ls) =
     foldl (\<lambda>m smp. if is_alloc (last (fst smp))
                      then add_count m (last (fst smp)) (snd smp) else m)
       (malloc_counts st) (samples_of py ls)"
    by (simp add: parse_file_with_def compute_categories_def parse_lines_samples f)
  show "free_counts (parse_file_with py cats st ls) =
     foldl (\<lambda>m smp. if \<not> is_alloc (last (fst smp)) \<and> is_free (last (fst smp))
                      then add_count m (last (fst smp)) (snd smp) else m)
       (free_counts st) (samples_of py ls)"
    by (simp add: parse_file_with_def compute_categories_def parse_lines_samples f)
  show "parsed_lines (parse_file_with py cats st ls) =
     parsed_lines st + int (length (samples_of py ls))"
    by (simp add: parse_file_with_def compute_categories_def parse_lines_samples f)
  show "category_counts (parse_file_with py cats st ls) =
     foldl (categorize_func cats) (category_counts st)
       (func_counts (parse_file_with py cats st ls))"
    by (simp add: parse_file_with_def compute_categories_def parse_lines_samples f)
qed

lemma sum_values_foldl_leaf:
  "sum_values (foldl (\<lambda>m smp. add_count m (last (fst smp)) (snd smp)) m smps) =
     sum_values m + sum_list (map snd smps)"
  by (induction smps arbitrary: m) (simp_all add: sum_values_add_count)

lemma distinct_foldl_leaf:
  "distinct (map fst m) \<Longrightarrow>
   distinct (map fst (foldl (\<lambda>m smp. add_count m (last (fst smp)) (snd smp)) m smps))"
  by (induction smps arbitrary: m) (simp_all add: distinct_add_count)

lemma sum_values_foldl_funcs:
  "sum_values (foldl (\<lambda>m smp. count_funcs m (fst smp) (snd smp)) m smps) =
     sum_values m +
     (\<Sum>smp\<leftarrow>smps. snd smp * int (length (filter (\<lambda>f. f \<noteq> []) (fst smp))))"
  by (induction smps arbitrary: m) (simp_all add: sum_values_count_funcs)

lemma distinct_foldl_funcs:
  "distinct (map fst m) \<Longrightarrow>
   distinct (map fst (foldl (\<lambda>m smp. count_funcs m (fst smp) (snd smp)) m smps))"
  by (induction smps arbitrary: m) (simp_all add: distinct_count_funcs)

lemma distinct_foldl_inclusive:
  "distinct (map fst m) \<Longrightarrow>
   distinct (map fst (foldl (\<lambda>m smp. count_inclusive m (fst smp) (snd smp)) m smps))"
  by (induction smps arbitrary: m) (simp_all add: distinct_count_inclusive)

lemma keys_foldl_inclusive:
  "fst ` set (foldl (\<lambda>m smp. count_inclusive m (fst smp) (snd smp)) m smps) =
     fst ` set m \<union> (\<Union>smp\<in>set smps. set (fst smp))"
  by (induction smps arbitrary: m) (auto simp: keys_count_inclusive)

lemma filter_foldl_inclusive:
  "filter (\<lambda>x. fst x \<noteq> [])
     (foldl (\<lambda>m smp. count_inclusive m (fst smp) (snd smp)) m smps) =
   foldl (\<lambda>m smp. count_funcs m (fst smp) (snd smp)) (filter (\<lambda>x. fst x \<noteq> []) m) smps"
  by (induction smps arbitrary: m) (simp_all add: filter_count_inclusive)

section \<open>Facts about the categorizer\<close>

lemma categorize_one_find:
  "categorize_one cats cc func n =
     (case find (\<lambda>cp. py_in (snd cp) func) cats of
        Some cp \<Rightarrow> (add_count cc (fst cp) n, True)
      | None \<Rightarrow> (cc, False))"
  by (induction cats cc func n rule: categorize_one.induct) auto

lemma categorize_func_spec:
  "categorize_func cats cc fc = add_count cc (spec_category cats (fst fc)) (snd fc)"
  by (simp add: categorize_func_def categorize_one_find spec_category_def Let_def
        split: option.splits)

lemma sum_values_foldl_categorize:
  "sum_values (foldl (categorize_func cats) cc fcs) = sum_values cc + sum_values fcs"
proof (induction fcs arbitrary: cc)
  case Nil
  then show ?case by (simp add: sum_values_def)
next
  case (Cons fc fcs)
  have "sum_values (foldl (categorize_func cats) (categorize_func cats cc fc) fcs) =
        sum_values (categorize_func cats cc fc) + sum_values fcs"
    by (rule Cons.IH)
  moreover have "sum_values (categorize_func cats cc fc) = sum_values cc + snd fc"
    unfolding categorize_func_spec by (rule sum_values_add_count)
  ultimately show ?case
    by (simp add: sum_values_def)
qed

lemma get_count_foldl_categorize:
  "get_count (foldl (categorize_func cats) cc fcs) b =
     get_count cc b + sum_values (filter (\<lambda>fc. spec_category cats (fst fc) = b) fcs)"
proof (induction fcs arbitrary: cc)
  case Nil
  then show ?case by (simp add: sum_values_def)
next
  case (Cons fc fcs)
  have "get_count (foldl (categorize_func cats) (categorize_func cats cc fc) fcs) b =
        get_count (categorize_func cats cc fc) b +
        sum_values (filter (\<lambda>fc. spec_category cats (fst fc) = b) fcs)"
    by (rule Cons.IH)
  moreover have "get_count (categorize_func cats cc fc) b =
        get_count cc b + (if b = spec_category cats (fst fc) then snd fc else 0)"
    unfolding categorize_func_spec by (rule get_count_add_count)
  ultimately show ?case
    by (auto simp: sum_values_def)
qed

section \<open>One pass and two passes of \<open>parse_file\<close>\<close>

text \<open>The tallies of the default mode are those of one pass over the lines taken twice.\<close>

lemma main_default_fields:
  "total_samples (main_default py ls) = 2 * sum_list (map snd (samples_of py ls))"
  "exclusive_time (main_default py ls) =
     foldl (\<lambda>m smp. add_count m (last (fst smp)) (snd smp)) []
       (samples_of py ls @ samples_of py ls)"
  "inclusive_time (main_default py ls) =
     foldl (\<lambda>m smp. count_inclusive m (fst smp) (snd smp)) []
       (samples_of py ls @ samples_of py ls)"
  "func_counts (main_default py ls) =
     foldl (\<lambda>m smp. count_funcs m (fst smp) (snd smp)) []
       (samples_of py ls @ samples_of py ls)"
  by (simp_all add: main_default_def main_parse_def parse_file_def parse_file_with_fields
        init_def)


text \<open>What one run of \<open>parse_file\<close> adds to the sums of the buckets and of \<open>func_counts\<close>.\<close>

lemma category_sum_laws:
  "sum_values (category_counts (parse_file py st ls)) =
     sum_values (category_counts st) + sum_values (func_counts (parse_file py st ls))"
  "sum_values (func_counts (parse_file py st ls)) =
     sum_values (func_counts st) +
     (\<Sum>smp\<leftarrow>samples_of py ls. snd smp * int (length (filter (\<lambda>f. f \<noteq> []) (fst smp))))"
proof -
  show "sum_values (category_counts (parse_file py st ls)) =
     sum_values (category_counts st) + sum_values (func_counts (parse_file py st ls))"
    unfolding parse_file_def parse_file_with_fields(9) sum_values_foldl_categorize ..
  show "sum_values (func_counts (parse_file py st ls)) =
     sum_values (func_counts st) +
     (\<Sum>smp\<leftarrow>samples_of py ls. snd smp * int (length (filter (\<lambda>f. f \<noteq> []) (fst smp))))"
    unfolding parse_file_def parse_file_with_fields(5) sum_values_foldl_funcs ..
qed

lemma sum_values_init: "sum_values (category_counts init) = 0" "sum_values (func_counts init) = 0"
  "sum_values (exclusive_time init) = 0" "total_samples init = 0"
  by (simp_all add: init_def sum_values_def)

section \<open>The invariants of the tallies\<close>

text \<open>
  Claim C3. For every input, the exclusive tally sums to the total sample weight, which
  is the sum of the weights of the accepted lines: the weight of each accepted line is
  added to the exclusive entry of exactly one frame, the last of its stack. The sum is
  taken over the entries of the tally and, equally, over its distinct frame names. A run
  of \<open>parse_file\<close> on any state adds the same amount to both sides, so the equality also
  holds after the two runs of the default mode.
\<close>

theorem exclusive_sum_is_total:
  "sum_values (exclusive_time (parse_file py init ls)) = total_samples (parse_file py init ls)
   \<and> (\<Sum>f\<in>fst ` set (exclusive_time (parse_file py init ls)).
         get_count (exclusive_time (parse_file py init ls)) f) =
       total_samples (parse_file py init ls)
   \<and> total_samples (parse_file py init ls) = sum_list (map snd (samples_of py ls))
   \<and> exclusive_time (parse_file py init ls) =
         foldl (\<lambda>m smp. add_count m (last (fst smp)) (snd smp)) [] (samples_of py ls)
   \<and> sum_values (exclusive_time (parse_file py st ls)) - total_samples (parse_file py st ls) =
       sum_values (exclusive_time st) - total_samples st
   \<and> sum_values (exclusive_time (main_default py ls)) = total_samples (main_default py ls)"
proof -
  let ?E = "exclusive_time (parse_file py init ls)"
  have e: "?E = foldl (\<lambda>m smp. add_count m (last (fst smp)) (snd smp)) [] (samples_of py ls)"
    by (simp add: parse_file_def parse_file_with_fields init_def)
  have t: "total_samples (parse_file py init ls) = sum_list (map snd (samples_of py ls))"
    by (simp add: parse_file_def parse_file_with_fields init_def)
  have s: "sum_values ?E = total_samples (parse_file py init ls)"
    unfolding e t sum_values_foldl_leaf by (simp add: sum_values_def)
  have "distinct (map fst ?E)"
    unfolding e by (rule distinct_foldl_leaf) simp
  then have k: "(\<Sum>f\<in>fst ` set ?E. get_count ?E f) = sum_values ?E"
    by (rule sum_values_keys)
  have g: "sum_values (exclusive_time (parse_file py st ls)) - total_samples (parse_file py st ls) =
       sum_values (exclusive_time st) - total_samples st" for st
    unfolding parse_file_def parse_file_with_fields sum_values_foldl_leaf by simp
  have "sum_values (exclusive_time (main_default py ls)) - total_samples (main_default py ls) =
        sum_values (exclusive_time init) - total_samples init"
    unfolding main_default_def main_parse_def g ..
  then have d: "sum_values (exclusive_time (main_default py ls)) =
                total_samples (main_default py ls)"
    by (simp add: sum_values_init)
  from s k e t g [of st] d show ?thesis by simp
qed



section \<open>The two function tallies\<close>

text \<open>
  Claim C10. The analyzer keeps two per-occurrence tallies: \<open>func_counts\<close> skips the
  frames whose name is the empty string, \<open>inclusive_time\<close> counts every frame. After
  parsing, \<open>func_counts\<close> is \<open>inclusive_time\<close> without the entry of the empty name: the
  two are equal when no accepted stack has an empty frame, and when some accepted stack
  has one, \<open>inclusive_time\<close> has an entry for the empty name and \<open>func_counts\<close> has none.
  The category buckets, computed from \<open>func_counts\<close>, sum to the sum of \<open>inclusive_time\<close>
  less the weight \<open>inclusive_time\<close> holds for the empty name. The relation of the two
  tallies also holds after the two runs of the default mode.
\<close>

theorem func_counts_versus_inclusive_time:
  "func_counts (parse_file py init ls) =
     filter (\<lambda>x. fst x \<noteq> []) (inclusive_time (parse_file py init ls))
   \<and> ([] \<notin> (\<Union>smp\<in>set (samples_of py ls). set (fst smp)) \<longrightarrow>
        func_counts (parse_file py init ls) = inclusive_time (parse_file py init ls))
   \<and> ([] \<in> (\<Union>smp\<in>set (samples_of py ls). set (fst smp)) \<longrightarrow>
        [] \<in> fst ` set (inclusive_time (parse_file py init ls))
        \<and> [] \<notin> fst ` set (func_counts (parse_file py init ls)))
   \<and> sum_values (category_counts (parse_file py init ls)) =
       sum_values (inclusive_time (parse_file py init ls)) -
       get_count (inclusive_time (parse_file py init ls)) []
   \<and> func_counts (main_default py ls) =
       filter (\<lambda>x. fst x \<noteq> []) (inclusive_time (main_default py ls))"
proof -
  let ?I = "inclusive_time (parse_file py init ls)" and ?F = "func_counts (parse_file py init ls)"
  have i: "?I = foldl (\<lambda>m smp. count_inclusive m (fst smp) (snd smp)) [] (samples_of py ls)"
    by (simp add: parse_file_def parse_file_with_fields init_def)
  have f: "?F = foldl (\<lambda>m smp. count_funcs m (fst smp) (snd smp)) [] (samples_of py ls)"
    by (simp add: parse_file_def parse_file_with_fields init_def)
  have rel: "?F = filter (\<lambda>x. fst x \<noteq> []) ?I"
    unfolding i f filter_foldl_inclusive by simp
  have keys: "fst ` set ?I = (\<Union>smp\<in>set (samples_of py ls). set (fst smp))"
    unfolding i keys_foldl_inclusive by simp
  have d: "distinct (map fst ?I)"
    unfolding i by (rule distinct_foldl_inclusive) simp
  have eq: "?F = ?I" if "[] \<notin> (\<Union>smp\<in>set (samples_of py ls). set (fst smp))"
  proof -
    from that keys have "\<forall>x\<in>set ?I. fst x \<noteq> []" by force
    then have "filter (\<lambda>x. fst x \<noteq> []) ?I = ?I" by simp
    with rel show ?thesis by simp
  qed
  have lacks: "[] \<notin> fst ` set ?F"
    unfolding rel by auto
  have "sum_values (category_counts (parse_file py init ls)) = sum_values ?F"
    unfolding category_sum_laws(1) by (simp add: sum_values_init)
  also have "\<dots> = sum_values ?I - get_count ?I []"
    unfolding rel using d by (rule sum_values_filter_empty)
  finally have cat: "sum_values (category_counts (parse_file py init ls)) =
                     sum_values ?I - get_count ?I []" .
  have two: "func_counts (main_default py ls) =
       filter (\<lambda>x. fst x \<noteq> []) (inclusive_time (main_default py ls))"
    unfolding main_default_fields filter_foldl_inclusive by simp
  show ?thesis
    using rel eq keys lacks cat two by simp
qed

theorem func_counts_versus_inclusive_time_witness:
  "samples_of example_interpreter [lit ''a;b;3''] = [([lit ''a'', lit ''b''], 3)]
   \<and> func_counts (parse_file example_interpreter init [lit ''a;b;3'']) =
       inclusive_time (parse_file example_interpreter init [lit ''a;b;3''])
   \<and> samples_of example_interpreter [lit '';a;5'', lit ''a;b;'', lit ''a;;b;3''] =
       [([[], lit ''a''], 5), ([lit ''a'', lit ''b'', []], 1), ([lit ''a'', [], lit ''b''], 3)]
   \<and> [] \<in> fst ` set (inclusive_time
         (parse_file example_interpreter init [lit '';a;5'', lit ''a;b;'', lit ''a;;b;3'']))
   \<and> [] \<notin> fst ` set (func_counts
         (parse_file example_interpreter init [lit '';a;5'', lit ''a;b;'', lit ''a;;b;3'']))"
proof -
  let ?py = example_interpreter
  have s1: "samples_of ?py [lit ''a;b;3''] = [([lit ''a'', lit ''b''], 3)]"
    by (simp add: samples_of_def line_eval)
  have s2: "samples_of ?py [lit '';a;5'', lit ''a;b;'', lit ''a;;b;3''] =
       [([[], lit ''a''], 5), ([lit ''a'', lit ''b'', []], 1), ([lit ''a'', [], lit ''b''], 3)]"
    by (simp add: samples_of_def line_eval)
  have r1: "func_counts (parse_file ?py init [lit ''a;b;3'']) =
            inclusive_time (parse_file ?py init [lit ''a;b;3''])"
    using func_counts_versus_inclusive_time [of ?py "[lit ''a;b;3'']",
        THEN conjunct2, THEN conjunct1]
    unfolding s1 by (simp add: lit_def)
  have r2: "[] \<in> fst ` set (inclusive_time
         (parse_file ?py init [lit '';a;5'', lit ''a;b;'', lit ''a;;b;3'']))
     \<and> [] \<notin> fst ` set (func_counts
         (parse_file ?py init [lit '';a;5'', lit ''a;b;'', lit ''a;;b;3'']))"
    using func_counts_versus_inclusive_time [of ?py "[lit '';a;5'', lit ''a;b;'', lit ''a;;b;3'']",
        THEN conjunct2, THEN conjunct2, THEN conjunct1]
    unfolding s2 by simp
  from s1 s2 r1 r2 show ?thesis by simp
qed

section \<open>The aggregation of one sample\<close>

text \<open>
  Claim C5. For a sample with a non-empty stack \<open>S\<close> and weight \<open>w\<close>, the aggregator adds
  \<open>w\<close> to the function tally of a frame once for each position of \<open>S\<close> that holds it (a
  frame occurring \<open>k\<close> times gains \<open>k * w\<close>; in \<open>inclusive_time\<close> for every name, in
  \<open>func_counts\<close> for every non-empty name), adds \<open>w\<close> to the exclusive and leaf tallies of
  the last frame of \<open>S\<close> and of no other frame, and adds every adjacent pair of \<open>S\<close> to the
  call relations, a set for each caller. The sample with stack \<open>a;a;a\<close> and weight 5,
  recorded in the initial state, gives the function tally 15, the exclusive tally 5 and
  the callee set \<open>{a}\<close> for \<open>a\<close>.
\<close>

theorem record_sample_tallies:
  "(S \<noteq> [] \<longrightarrow>
      get_count (inclusive_time (record_sample st (S, w))) f =
        get_count (inclusive_time st) f + w * int (count_list S f)
      \<and> (f \<noteq> [] \<longrightarrow>
           get_count (func_counts (record_sample st (S, w))) f =
             get_count (func_counts st) f + w * int (count_list S f))
      \<and> get_count (exclusive_time (record_sample st (S, w))) f =
          get_count (exclusive_time st) f + (if f = last S then w else 0)
      \<and> get_count (leaf_counts (record_sample st (S, w))) f =
          get_count (leaf_counts st) f + (if f = last S then w else 0)
      \<and> callees (call_relations (record_sample st (S, w))) f =
          callees (call_relations st) f \<union>
            (\<lambda>i. S ! (i + 1)) ` {i. i + 1 < length S \<and> S ! i = f})
   \<and> get_count (inclusive_time (record_sample init ([lit ''a'', lit ''a'', lit ''a''], 5)))
         (lit ''a'') = 15
   \<and> get_count (func_counts (record_sample init ([lit ''a'', lit ''a'', lit ''a''], 5)))
         (lit ''a'') = 15
   \<and> get_count (exclusive_time (record_sample init ([lit ''a'', lit ''a'', lit ''a''], 5)))
         (lit ''a'') = 5
   \<and> get_count (leaf_counts (record_sample init ([lit ''a'', lit ''a'', lit ''a''], 5)))
         (lit ''a'') = 5
   \<and> callees (call_relations (record_sample init ([lit ''a'', lit ''a'', lit ''a''], 5)))
         (lit ''a'') = {lit ''a''}
   \<and> parse_line py (lit ''a;a;a;5'') = Some ([lit ''a'', lit ''a'', lit ''a''], 5)"
proof -
  have gen: "get_count (inclusive_time (record_sample st (S, w))) f =
        get_count (inclusive_time st) f + w * int (count_list S f)
      \<and> (f \<noteq> [] \<longrightarrow>
           get_count (func_counts (record_sample st (S, w))) f =
             get_count (func_counts st) f + w * int (count_list S f))
      \<and> get_count (exclusive_time (record_sample st (S, w))) f =
          get_count (exclusive_time st) f + (if f = last S then w else 0)
      \<and> get_count (leaf_counts (record_sample st (S, w))) f =
          get_count (leaf_counts st) f + (if f = last S then w else 0)
      \<and> callees (call_relations (record_sample st (S, w))) f =
          callees (call_relations st) f \<union>
            (\<lambda>i. S ! (i + 1)) ` {i. i + 1 < length S \<and> S ! i = f}"
    if "S \<noteq> []" for S st w f
    using that
    by (simp add: record_sample_fields get_count_count_inclusive get_count_count_funcs
          get_count_add_count callees_record_relations)
  let ?s = "([lit ''a'', lit ''a'', lit ''a''], 5 :: int)"
  have ne: "fst ?s \<noteq> []" by simp
  note r = record_sample_fields [OF ne, of init]
  have e1: "get_count (inclusive_time (record_sample init ?s)) (lit ''a'') = 15"
    unfolding r by (simp add: init_def count_inclusive_def get_count_def)
  have e2: "get_count (func_counts (record_sample init ?s)) (lit ''a'') = 15"
    unfolding r by (simp add: init_def count_funcs_def get_count_def lit_def)
  have e3: "get_count (exclusive_time (record_sample init ?s)) (lit ''a'') = 5"
    unfolding r by (simp add: init_def get_count_def)
  have e4: "get_count (leaf_counts (record_sample init ?s)) (lit ''a'') = 5"
    unfolding r by (simp add: init_def get_count_def)
  have "[0..<2] = [0, Suc 0]"
    by (simp add: upt_rec)
  then have e5: "callees (call_relations (record_sample init ?s)) (lit ''a'') = {lit ''a''}"
    unfolding r by (simp add: init_def record_relations_def callees_def)
  have e6: "parse_line py (lit ''a;a;a;5'') = Some ([lit ''a'', lit ''a'', lit ''a''], 5)"
    by (simp add: line_eval)
  from gen e1 e2 e3 e4 e5 e6 show ?thesis by blast
qed

theorem record_sample_tallies_witness:
  "[lit ''main'', lit ''f'', lit ''f''] \<noteq> []
   \<and> get_count (inclusive_time (record_sample init ([lit ''main'', lit ''f'', lit ''f''], 2)))
         (lit ''f'') = 4
   \<and> get_count (func_counts (record_sample init ([lit ''main'', lit ''f'', lit ''f''], 2)))
         (lit ''f'') = 4
   \<and> get_count (exclusive_time (record_sample init ([lit ''main'', lit ''f'', lit ''f''], 2)))
         (lit ''f'') = 2
   \<and> callees (call_relations (record_sample init ([lit ''main'', lit ''f'', lit ''f''], 2)))
         (lit ''main'') = {lit ''f''}"
proof -
  let ?S = "[lit ''main'', lit ''f'', lit ''f'']"
  have ne: "?S \<noteq> []" by simp
  have f: "lit ''f'' \<noteq> []" by (simp add: lit_def)
  have mf: "lit ''main'' \<noteq> lit ''f''" by (simp add: lit_def)
  note r = record_sample_tallies [where S = ?S and st = init and w = 2,
      THEN conjunct1, rule_format, OF ne]
  have a: "get_count (inclusive_time (record_sample init (?S, 2))) (lit ''f'') = 4"
    using r [where f = "lit ''f''", THEN conjunct1] mf by (simp add: init_def get_count_def)
  have b: "get_count (func_counts (record_sample init (?S, 2))) (lit ''f'') = 4"
    using r [where f = "lit ''f''", THEN conjunct2, THEN conjunct1] f mf
    by (simp add: init_def get_count_def)
  have c: "get_count (exclusive_time (record_sample init (?S, 2))) (lit ''f'') = 2"
    using r [where f = "lit ''f''", THEN conjunct2, THEN conjunct2, THEN conjunct1]
    by (simp add: init_def get_count_def)
  have sel: "{i. i + 1 < length ?S \<and> ?S ! i = lit ''main''} = {0}"
  proof -
    have "i + 1 < length ?S \<and> ?S ! i = lit ''main'' \<longleftrightarrow> i = 0" for i
    proof (cases i)
      case 0
      then show ?thesis by simp
    next
      case (Suc j)
      then show ?thesis using mf by (cases j) auto
    qed
    then show ?thesis by simp
  qed
  have d: "callees (call_relations (record_sample init (?S, 2))) (lit ''main'') = {lit ''f''}"
    using r [where f = "lit ''main''", THEN conjunct2, THEN conjunct2, THEN conjunct2, THEN conjunct2]
    unfolding sel by (simp add: init_def callees_def)
  from ne a b c d show ?thesis by simp
qed

section \<open>The assignment of frame names to categories\<close>

lemma spec_category_first:
  "cats = pre @ (c, sub) # post \<Longrightarrow> py_in sub func \<Longrightarrow>
   \<forall>p\<in>set pre. \<not> py_in (snd p) func \<Longrightarrow> spec_category cats func = c"
proof -
  assume c: "cats = pre @ (c, sub) # post" and m: "py_in sub func"
    and n: "\<forall>p\<in>set pre. \<not> py_in (snd p) func"
  have "find (\<lambda>cp. py_in (snd cp) func) (pre @ (c, sub) # post) = Some (c, sub)"
    using m n by (induction pre) auto
  with c show ?thesis by (simp add: spec_category_def)
qed

lemma spec_category_none:
  "\<forall>p\<in>set cats. \<not> py_in (snd p) func \<Longrightarrow> spec_category cats func = other"
proof -
  assume "\<forall>p\<in>set cats. \<not> py_in (snd p) func"
  then have "find (\<lambda>cp. py_in (snd cp) func) cats = None"
    by (auto simp: find_None_iff)
  then show ?thesis by (simp add: spec_category_def)
qed

text \<open>
  Claim C9. Every distinct frame name of the function tally \<open>func_counts\<close> goes to exactly
  one bucket, \<open>spec_category\<close> of the name: the category of the first pair, in the
  configured order, whose substring the name contains, and the fallback bucket when no
  substring is contained. The bucket receives the whole tally of the name, so after
  \<open>parse_file\<close> on a fresh analyzer a bucket holds the sum of the tallies of the names
  assigned to it, and a run on any state adds this sum to what the bucket held. A name
  containing two configured substrings goes to the category listed first; the assignment
  is a function of the name and the configured list. With the configured categories,
  \<open>QtCoreFoundation\<close> goes to \<open>Qt\<close>.
\<close>

theorem categorizer_first_match:
  "categorize_func cats cc (func, n) = add_count cc (spec_category cats func) n
   \<and> (cats = pre @ (c, sub) # post \<and> py_in sub func \<and> (\<forall>p\<in>set pre. \<not> py_in (snd p) func)
        \<longrightarrow> spec_category cats func = c)
   \<and> ((\<forall>p\<in>set cats. \<not> py_in (snd p) func) \<longrightarrow> spec_category cats func = other)
   \<and> distinct (map fst (func_counts (parse_file_with py cats init ls)))
   \<and> get_count (category_counts (parse_file_with py cats init ls)) b =
       sum_values (filter (\<lambda>fc. spec_category cats (fst fc) = b)
                     (func_counts (parse_file_with py cats init ls)))
   \<and> get_count (category_counts (parse_file_with py cats st ls)) b =
       get_count (category_counts st) b +
       sum_values (filter (\<lambda>fc. spec_category cats (fst fc) = b)
                     (func_counts (parse_file_with py cats st ls)))
   \<and> spec_category categories (lit ''QtCoreFoundation'') = lit ''Qt''
   \<and> category_counts (parse_file py init [lit ''QtCoreFoundation;3'']) = [(lit ''Qt'', 3)]"
proof -
  have a: "categorize_func cats cc (func, n) = add_count cc (spec_category cats func) n"
    by (simp add: categorize_func_spec)
  have d: "distinct (map fst (func_counts (parse_file_with py cats init ls)))"
    unfolding parse_file_with_fields(5) by (rule distinct_foldl_funcs) (simp add: init_def)
  have g: "get_count (category_counts (parse_file_with py cats st ls)) b =
       get_count (category_counts st) b +
       sum_values (filter (\<lambda>fc. spec_category cats (fst fc) = b)
                     (func_counts (parse_file_with py cats st ls)))" for st
    unfolding parse_file_with_fields(9) get_count_foldl_categorize ..
  have g0: "get_count (category_counts (parse_file_with py cats init ls)) b =
       sum_values (filter (\<lambda>fc. spec_category cats (fst fc) = b)
                     (func_counts (parse_file_with py cats init ls)))"
    unfolding g by (simp add: init_def get_count_def)
  have q: "spec_category categories (lit ''QtCoreFoundation'') = lit ''Qt''"
    by (simp add: spec_category_def categories_def lit_def)
  have s: "samples_of py [lit ''QtCoreFoundation;3''] = [([lit ''QtCoreFoundation''], 3)]"
    by (simp add: samples_of_def line_eval)
  have f: "func_counts (parse_file py init [lit ''QtCoreFoundation;3'']) =
           [(lit ''QtCoreFoundation'', 3)]"
    unfolding parse_file_def parse_file_with_fields s
    by (simp add: count_funcs_def init_def lit_def)
  have "category_counts (parse_file py init [lit ''QtCoreFoundation;3'']) =
        foldl (categorize_func categories) [] [(lit ''QtCoreFoundation'', 3)]"
    using f by (simp add: parse_file_def parse_file_with_fields(9) init_def)
  then have e: "category_counts (parse_file py init [lit ''QtCoreFoundation;3'']) =
                [(lit ''Qt'', 3)]"
    by (simp add: categorize_func_spec q)
  from a d g0 g [of st] q e spec_category_first [of cats pre c sub post func]
    spec_category_none [of cats func]
  show ?thesis by blast
qed

theorem categorizer_first_match_witness:
  "py_in (lit ''CoreFoundation'') (lit ''CFRunLoopRun@CoreFoundation'')
   \<and> py_in (lit ''Foundation'') (lit ''CFRunLoopRun@CoreFoundation'')
   \<and> spec_category categories (lit ''CFRunLoopRun@CoreFoundation'') = lit ''CoreFoundation''
   \<and> spec_category categories (lit ''main'') = other"
proof -
  let ?f = "lit ''CFRunLoopRun@CoreFoundation''"
  let ?pre = "[(lit ''MoganSTEM'', lit ''MoganSTEM''), (lit ''Qt'', lit ''Qt''),
               (lit ''AppKit'', lit ''AppKit'')]"
  have m1: "py_in (lit ''CoreFoundation'') ?f" by (simp add: lit_def)
  have m2: "py_in (lit ''Foundation'') ?f" by (simp add: lit_def)
  have c: "categories = ?pre @ (lit ''CoreFoundation'', lit ''CoreFoundation'') # drop 4 categories"
    by (simp add: categories_def)
  have n: "\<forall>p\<in>set ?pre. \<not> py_in (snd p) ?f"
    by (simp add: lit_def)
  have r1: "spec_category categories ?f = lit ''CoreFoundation''"
    using categorizer_first_match [where cats = categories and pre = ?pre
        and c = "lit ''CoreFoundation''" and sub = "lit ''CoreFoundation''"
        and post = "drop 4 categories" and func = ?f,
        THEN conjunct2, THEN conjunct1] c m1 n
    by blast
  have n2: "\<forall>p\<in>set categories. \<not> py_in (snd p) (lit ''main'')"
    by (simp add: categories_def lit_def)
  have r2: "spec_category categories (lit ''main'') = other"
    using categorizer_first_match [where cats = categories and func = "lit ''main''",
        THEN conjunct2, THEN conjunct2, THEN conjunct1] n2
    by blast
  from m1 m2 r1 r2 show ?thesis by simp
qed

section \<open>The memory heuristics\<close>

lemma set_sorted_desc: "set (sorted_desc k xs) = set xs"
  by (simp add: sorted_desc_def)

lemma sorted_sorted_desc: "sorted (map (\<lambda>x. - k x) (sorted_desc k xs))"
  by (simp add: sorted_desc_def)

lemma set_collect_leaks:
  "(func, malloc, free, d) \<in> set (collect_leaks ms) \<longleftrightarrow>
     (\<exists>t. (func, malloc, free, t) \<in> set ms) \<and> malloc > 0 \<and> free > 0
     \<and> malloc > free * 2 \<and> malloc - free > 10 \<and> d = malloc - free"
  by (induction ms rule: collect_leaks.induct) auto

lemma set_memory_stats:
  "(func, malloc, free, t) \<in> set (memory_stats funcs st) \<longleftrightarrow>
     func \<in> set funcs \<and> malloc = get_count (malloc_counts st) func
     \<and> free = get_count (free_counts st) func \<and> t = malloc + free \<and> t > 0"
  by (auto simp: memory_stats_def set_sorted_desc stat_of_def Let_def)

text \<open>
  Claim C7. A leaf is a leak candidate exactly when its allocation count and its free count
  are both positive, the allocation count exceeds twice the free count and the difference
  of the two exceeds 10; the candidates are listed by descending difference. A leaf with
  100 allocations and 40 frees is a candidate, one with 15 allocations and 10 frees is not.
\<close>

theorem leak_candidates_iff:
  "((func, malloc, free, d) \<in> set (leak_candidates (memory_stats funcs st)) \<longleftrightarrow>
      func \<in> set funcs
      \<and> malloc = get_count (malloc_counts st) func \<and> free = get_count (free_counts st) func
      \<and> malloc > 0 \<and> free > 0 \<and> malloc > free * 2 \<and> malloc - free > 10
      \<and> d = malloc - free)
   \<and> ((func, malloc, free, d) \<in> set (leak_candidates ms) \<longleftrightarrow>
      (\<exists>t. (func, malloc, free, t) \<in> set ms) \<and> malloc > 0 \<and> free > 0
      \<and> malloc > free * 2 \<and> malloc - free > 10 \<and> d = malloc - free)
   \<and> sorted (map (\<lambda>x. - snd (snd (snd x))) (leak_candidates ms))
   \<and> leak_candidates [(func, 100, 40, 140)] = [(func, 100, 40, 60)]
   \<and> leak_candidates [(func, 15, 10, 25)] = []
   \<and> leak_candidates
         (memory_stats [lit ''f'']
            (init\<lparr>malloc_counts := [(lit ''f'', 100)], free_counts := [(lit ''f'', 40)]\<rparr>)) =
       [(lit ''f'', 100, 40, 60)]
   \<and> leak_candidates
         (memory_stats [lit ''f'']
            (init\<lparr>malloc_counts := [(lit ''f'', 15)], free_counts := [(lit ''f'', 10)]\<rparr>)) = []"
proof -
  have g: "(func, malloc, free, d) \<in> set (leak_candidates ms) \<longleftrightarrow>
      (\<exists>t. (func, malloc, free, t) \<in> set ms) \<and> malloc > 0 \<and> free > 0
      \<and> malloc > free * 2 \<and> malloc - free > 10 \<and> d = malloc - free" for ms
    unfolding leak_candidates_def set_sorted_desc by (rule set_collect_leaks)
  have s: "(func, malloc, free, d) \<in> set (leak_candidates (memory_stats funcs st)) \<longleftrightarrow>
      func \<in> set funcs
      \<and> malloc = get_count (malloc_counts st) func \<and> free = get_count (free_counts st) func
      \<and> malloc > 0 \<and> free > 0 \<and> malloc > free * 2 \<and> malloc - free > 10
      \<and> d = malloc - free"
    unfolding g set_memory_stats by auto
  have o: "sorted (map (\<lambda>x. - snd (snd (snd x))) (leak_candidates ms))"
    unfolding leak_candidates_def by (rule sorted_sorted_desc)
  have e1: "leak_candidates [(func, 100, 40, 140)] = [(func, 100, 40, 60)]"
    by (simp add: leak_candidates_def sorted_desc_def)
  have e2: "leak_candidates [(func, 15, 10, 25)] = []"
    by (simp add: leak_candidates_def sorted_desc_def)
  have e3: "leak_candidates
         (memory_stats [lit ''f'']
            (init\<lparr>malloc_counts := [(lit ''f'', 100)], free_counts := [(lit ''f'', 40)]\<rparr>)) =
       [(lit ''f'', 100, 40, 60)]"
    by (simp add: leak_candidates_def sorted_desc_def memory_stats_def stat_of_def
          get_count_def init_def)
  have e4: "leak_candidates
         (memory_stats [lit ''f'']
            (init\<lparr>malloc_counts := [(lit ''f'', 15)], free_counts := [(lit ''f'', 10)]\<rparr>)) = []"
    by (simp add: leak_candidates_def sorted_desc_def memory_stats_def stat_of_def
          get_count_def init_def)
  from s g [of ms] o e1 e2 e3 e4 show ?thesis by blast
qed

section \<open>Facts about floats and percentages\<close>

lemmas float_eval = percentage_def truediv_def times100_def overflows_def binary64_def
  ilog2_def pow2_def round_half_even_def Let_def bit_length.simps

text \<open>The two float literals, and some quotients and percentages.\<close>

lemma float_literals:
  "float_0_8 = 3602879701896397 / 4503599627370496"
  "float_1_2 = 5404319552844595 / 4503599627370496"
  by (simp_all add: float_0_8_def float_1_2_def float_eval)

lemma truediv_examples:
  "truediv 1 21 = Inr (6862628003612184 / 144115188075855872)"
  "truediv 399999999999999999 500000000000000000 = Inr (3602879701896397 / 4503599627370496)"
  "truediv 3 5 = Inr (5404319552844595 / 9007199254740992)"
  "truediv 5 0 = Inl ZeroDivisionError"
  "truediv 0 (- 5) = Inr 0"
  by (simp_all add: float_eval)

lemma percentage_examples:
  "percentage 1 21 = Inr (Fin (5361428127822019 / 1125899906842624))"
  "percentage 10000000000000001 1000000000000000000 = Inr (Fin 1)"
  "percentage 989999999999999999 1000000000000000000 = Inr (Fin 99)"
  "percentage 0 0 = Inl ZeroDivisionError"
  by (simp_all add: float_eval)

lemma percentage_zero: "percentage v 0 = Inl ZeroDivisionError"
  by (simp add: percentage_def truediv_def)

lemma percentage_Inr:
  "percentage v tot = Inr p \<longleftrightarrow>
     tot \<noteq> 0 \<and> \<not> overflows (of_int v / of_int tot)
     \<and> p = times100 (binary64 (of_int v / of_int tot))"
  by (auto simp: percentage_def truediv_def)

lemma percentage_Inl:
  "percentage v tot = Inl e \<longleftrightarrow>
     (tot = 0 \<and> e = ZeroDivisionError)
     \<or> (tot \<noteq> 0 \<and> overflows (of_int v / of_int tot) \<and> e = OverflowError)"
  by (auto simp: percentage_def truediv_def)

text \<open>A quotient of \<open>2 ^ 1024\<close> or more does not fit a float.\<close>

lemma bit_length_bounds:
  "0 < n \<Longrightarrow> 2 ^ (bit_length n - 1) \<le> n \<and> n < 2 ^ bit_length n"
proof (induction n rule: bit_length.induct)
  case (1 n)
  show ?case
  proof (cases "n div 2 = 0")
    case True
    with "1.prems" have n: "n = 1" by (simp add: div_eq_0_iff) 
    have "bit_length 1 = Suc (bit_length 0)"
      by (subst bit_length.simps) simp
    also have "bit_length 0 = 0"
      by (subst bit_length.simps) simp
    finally show ?thesis using n by simp
  next
    case False
    with "1.prems" "1.IH" have ih: "2 ^ (bit_length (n div 2) - 1) \<le> n div 2"
      "n div 2 < 2 ^ bit_length (n div 2)"
      by simp_all
    from "1.prems" have bl: "bit_length n = Suc (bit_length (n div 2))"
      by (subst bit_length.simps) simp
    have pos: "0 < bit_length (n div 2)"
    proof (rule ccontr)
      assume "\<not> 0 < bit_length (n div 2)"
      with ih(2) False show False by simp
    qed
    then have "(2::nat) ^ bit_length (n div 2) = 2 * 2 ^ (bit_length (n div 2) - 1)"
      by (cases "bit_length (n div 2)") simp_all
    with ih(1) have "2 ^ bit_length (n div 2) \<le> 2 * (n div 2)" by simp
    also have "\<dots> \<le> n" by simp
    finally have lo: "2 ^ (bit_length n - 1) \<le> n" using bl by simp
    from ih(2) have "n < 2 * 2 ^ bit_length (n div 2)" by linarith
    with lo bl show ?thesis by simp
  qed
qed

lemma round_half_even_ge: "\<lfloor>x\<rfloor> \<le> round_half_even x"
  by (simp add: round_half_even_def Let_def)

lemma overflows_ge:
  assumes "2 ^ 1024 \<le> x"
  shows "overflows x"
proof -
  define n where "n = nat \<lfloor>x\<rfloor>"
  define k where "k = bit_length n - 1"
  have "(1::real) \<le> 2 ^ 1024" by simp
  with assms have x1: "1 \<le> x" by linarith
  have "(2::int) ^ 1024 \<le> \<lfloor>x\<rfloor>"
    using assms by (simp add: le_floor_iff)
  then have n1024: "2 ^ 1024 \<le> n"
    unfolding n_def by (simp add: le_nat_iff)
  then have n_pos: "0 < n"
    by (metis gr0I not_numeral_le_zero power_eq_0_iff zero_neq_numeral le_zero_eq)
  from bit_length_bounds [OF n_pos] have lo: "2 ^ k \<le> n" and hi: "n < 2 ^ bit_length n"
    by (simp_all add: k_def)
  from hi n_pos have "0 < bit_length n"
    by (cases "bit_length n") simp_all
  then have bl: "bit_length n = Suc k" by (simp add: k_def)
  from n1024 hi have lt: "(2::nat) ^ 1024 < 2 ^ Suc k" unfolding bl by linarith
  have one: "(1::nat) < 2" by simp
  from power_less_imp_less_exp [OF one lt] have k1024: "1024 \<le> k" by linarith
  have nx: "real n \<le> x"
    unfolding n_def using x1 by (simp add: of_nat_nat)
  have il: "ilog2 x = int k"
    using x1 by (simp add: ilog2_def n_def [symmetric] bl)
  have e: "max (ilog2 x - 52) (- 1074) = int (k - 52)"
    unfolding il using k1024 by simp
  have p: "pow2 (int (k - 52)) = 2 ^ (k - 52)"
    by (simp add: pow2_def)
  have b: "binary64 x = of_int (round_half_even (x / 2 ^ (k - 52))) * 2 ^ (k - 52)"
    using x1 by (simp add: binary64_def e p Let_def)
  have k52: "k = (k - 52) + 52" using k1024 by simp
  have "(2::real) ^ k = 2 ^ (k - 52) * 2 ^ 52"
    by (subst k52) (simp only: power_add)
  moreover have "2 ^ k \<le> x"
    using lo nx by (metis (mono_tags) of_nat_le_iff of_nat_numeral of_nat_power order_trans)
  ultimately have "(2::real) ^ 52 \<le> x / 2 ^ (k - 52)"
    by (simp add: le_divide_eq mult.commute)
  then have "(2::int) ^ 52 \<le> \<lfloor>x / 2 ^ (k - 52)\<rfloor>"
    by (simp add: le_floor_iff)
  with round_half_even_ge [of "x / 2 ^ (k - 52)"]
  have "(2::int) ^ 52 \<le> round_half_even (x / 2 ^ (k - 52))" by linarith
  then have "(2::real) ^ 52 \<le> of_int (round_half_even (x / 2 ^ (k - 52)))"
    by (metis of_int_le_iff of_int_numeral of_int_power)
  then have "(2::real) ^ 52 * 2 ^ (k - 52) \<le> binary64 x"
    unfolding b by (simp add: mult_right_mono)
  moreover have "(2::real) ^ 52 * 2 ^ (k - 52) = 2 ^ k"
    by (subst (2) k52) (simp only: power_add mult.commute)
  moreover have "(2::real) ^ 1024 \<le> 2 ^ k"
    by (rule power_increasing [OF k1024]) simp
  ultimately have "2 ^ 1024 \<le> binary64 x" by linarith
  then show ?thesis by (simp add: overflows_def)
qed

lemma truediv_overflow:
  "b \<noteq> 0 \<Longrightarrow> 2 ^ 1024 \<le> real_of_int a / real_of_int b \<Longrightarrow> truediv a b = Inl OverflowError"
  by (simp add: truediv_def overflows_ge)

lemma truediv_overflow_example: "truediv (10 ^ 310) 1 = Inl OverflowError"
  by (rule truediv_overflow) simp_all

lemma times100_overflow: "2 ^ 1024 \<le> x * 100 \<Longrightarrow> 0 < x \<Longrightarrow> times100 x = PosInf"
  by (simp add: times100_def overflows_ge)

section \<open>Facts about the high-cost view\<close>

lemma high_cost_Inr:
  "high_cost threshold tot xs = Inr h \<Longrightarrow>
   h = filter (\<lambda>fp. exceeds (snd fp) threshold)
         (map (\<lambda>ft. (fst ft, times100 (binary64 (of_int (snd ft) / of_int tot)))) xs)"
proof (induction threshold tot xs arbitrary: h rule: high_cost.induct)
  case (1 threshold tot)
  then show ?case by simp
next
  case (2 threshold tot func time_val rest)
  from "2.prems" obtain p where p: "percentage time_val tot = Inr p"
    by (cases "percentage time_val tot") simp_all
  with "2.prems" obtain high where high: "high_cost threshold tot rest = Inr high"
    by (cases "high_cost threshold tot rest") simp_all
  from p have pv: "p = times100 (binary64 (of_int time_val / of_int tot))"
    by (simp add: percentage_Inr)
  from "2.IH" [OF p high] "2.prems" p high pv show ?case
    by simp
qed

lemma high_cost_returns:
  "tot \<noteq> 0 \<Longrightarrow> \<forall>ft\<in>set xs. \<not> overflows (of_int (snd ft) / of_int tot) \<Longrightarrow>
   \<exists>h. high_cost threshold tot xs = Inr h"
proof (induction threshold tot xs rule: high_cost.induct)
  case (1 threshold tot)
  then show ?case by simp
next
  case (2 threshold tot func time_val rest)
  then have "percentage time_val tot =
             Inr (times100 (binary64 (of_int time_val / of_int tot)))"
    by (simp add: percentage_Inr)
  then have p: "percentage time_val tot =
             Inr (times100 (binary64 (of_int time_val / of_int tot)))" .
  from "2.IH" [OF p] "2.prems" obtain h where "high_cost threshold tot rest = Inr h"
    by auto
  with p show ?case by simp
qed

lemma high_cost_zero: "xs \<noteq> [] \<Longrightarrow> high_cost threshold 0 xs = Inl ZeroDivisionError"
  by (cases xs) (auto simp: percentage_zero)

lemma distinct_keys_sorted_desc:
  "distinct (map fst m) \<Longrightarrow> distinct (map fst (sorted_desc k m))"
  by (simp add: sorted_desc_def distinct_map)

lemma beyond_window_not_in_window:
  assumes "distinct (map fst xs)" "n \<le> i" "i < length xs"
  shows "fst (xs ! i) \<notin> fst ` set (take n xs)"
proof
  assume "fst (xs ! i) \<in> fst ` set (take n xs)"
  then obtain j where j: "j < length (take n xs)" "fst (take n xs ! j) = fst (xs ! i)"
    by (auto simp: in_set_conv_nth)
  then have jn: "j < n" "j < length xs" by simp_all
  with j have "map fst xs ! j = map fst xs ! i"
    using assms(3) by simp
  moreover have "map fst xs ! j = map fst xs ! i \<longleftrightarrow> j = i"
    using assms(1) jn assms(3) by (intro nth_eq_iff_index_eq) simp_all
  ultimately have "j = i" by blast
  with jn assms(2) show False by simp
qed

text \<open>
  Claim C6. The high-cost view takes the functions sorted by inclusive (or exclusive)
  weight, descending, keeps the first 20, and reports from this window the functions whose
  percentage of the total sample weight, the float \<open>(weight / total) * 100\<close>, exceeds 2
  (or 1). A function at position 21 or later of the sorted list is not reported, whatever
  its percentage. The view is produced when the total is not zero and no quotient of the
  window overflows a float.
\<close>

theorem high_cost_window:
  "(high_inclusive st = Inr hi \<longrightarrow>
      hi = filter (\<lambda>fp. exceeds (snd fp) 2)
             (map (\<lambda>ft. (fst ft, times100 (binary64 (of_int (snd ft) / of_int (total_samples st)))))
                (take 20 (sorted_desc snd (inclusive_time st)))))
   \<and> (high_exclusive st = Inr he \<longrightarrow>
      he = filter (\<lambda>fp. exceeds (snd fp) 1)
             (map (\<lambda>ft. (fst ft, times100 (binary64 (of_int (snd ft) / of_int (total_samples st)))))
                (take 20 (sorted_desc snd (exclusive_time st)))))
   \<and> (total_samples st \<noteq> 0
        \<and> (\<forall>ft\<in>set (take 20 (sorted_desc snd (inclusive_time st))).
              \<not> overflows (of_int (snd ft) / of_int (total_samples st)))
        \<and> (\<forall>ft\<in>set (take 20 (sorted_desc snd (exclusive_time st))).
              \<not> overflows (of_int (snd ft) / of_int (total_samples st)))
      \<longrightarrow> (\<exists>hi he. high_inclusive st = Inr hi \<and> high_exclusive st = Inr he
             \<and> print_performance_issues st = Inr (hi, he)))
   \<and> sorted (map (\<lambda>x. - snd x) (sorted_desc snd (inclusive_time st)))
   \<and> set (sorted_desc snd (inclusive_time st)) = set (inclusive_time st)
   \<and> sorted (map (\<lambda>x. - snd x) (sorted_desc snd (exclusive_time st)))
   \<and> set (sorted_desc snd (exclusive_time st)) = set (exclusive_time st)
   \<and> (high_inclusive st = Inr hi \<and> distinct (map fst (inclusive_time st))
        \<and> 20 \<le> i \<and> i < length (inclusive_time st) \<longrightarrow>
        fst (sorted_desc snd (inclusive_time st) ! i) \<notin> fst ` set hi)
   \<and> (high_exclusive st = Inr he \<and> distinct (map fst (exclusive_time st))
        \<and> 20 \<le> i \<and> i < length (exclusive_time st) \<longrightarrow>
        fst (sorted_desc snd (exclusive_time st) ! i) \<notin> fst ` set he)"
proof -
  have window: "fst (sorted_desc snd m ! i) \<notin> fst ` set h"
    if h: "high_cost threshold tot (take 20 (sorted_desc snd m)) = Inr h"
      and d: "distinct (map fst m)" and i: "20 \<le> i" "i < length m"
    for threshold tot m h
  proof -
    have len: "length (sorted_desc snd m) = length m"
      by (simp add: sorted_desc_def)
    have "fst (sorted_desc snd m ! i) \<notin> fst ` set (take 20 (sorted_desc snd m))"
      using distinct_keys_sorted_desc [OF d] i len
      by (intro beyond_window_not_in_window) simp_all
    moreover have "fst ` set h \<subseteq> fst ` set (take 20 (sorted_desc snd m))"
      unfolding high_cost_Inr [OF h] by force
    ultimately show ?thesis by blast
  qed
  have a: "hi = filter (\<lambda>fp. exceeds (snd fp) 2)
             (map (\<lambda>ft. (fst ft, times100 (binary64 (of_int (snd ft) / of_int (total_samples st)))))
                (take 20 (sorted_desc snd (inclusive_time st))))"
    if "high_inclusive st = Inr hi"
    using that unfolding high_inclusive_def by (rule high_cost_Inr)
  have b: "he = filter (\<lambda>fp. exceeds (snd fp) 1)
             (map (\<lambda>ft. (fst ft, times100 (binary64 (of_int (snd ft) / of_int (total_samples st)))))
                (take 20 (sorted_desc snd (exclusive_time st))))"
    if "high_exclusive st = Inr he"
    using that unfolding high_exclusive_def by (rule high_cost_Inr)
  have c: "\<exists>hi he. high_inclusive st = Inr hi \<and> high_exclusive st = Inr he
             \<and> print_performance_issues st = Inr (hi, he)"
    if t: "total_samples st \<noteq> 0"
      and oi: "\<forall>ft\<in>set (take 20 (sorted_desc snd (inclusive_time st))).
              \<not> overflows (of_int (snd ft) / of_int (total_samples st))"
      and oe: "\<forall>ft\<in>set (take 20 (sorted_desc snd (exclusive_time st))).
              \<not> overflows (of_int (snd ft) / of_int (total_samples st))"
  proof -
    from high_cost_returns [OF t oi] obtain hi where hi: "high_inclusive st = Inr hi"
      unfolding high_inclusive_def by blast
    from high_cost_returns [OF t oe] obtain he where he: "high_exclusive st = Inr he"
      unfolding high_exclusive_def by blast
    from hi he have "print_performance_issues st = Inr (hi, he)"
      by (simp add: print_performance_issues_def)
    with hi he show ?thesis by blast
  qed
  have wi: "fst (sorted_desc snd (inclusive_time st) ! i) \<notin> fst ` set hi"
    if "high_inclusive st = Inr hi" "distinct (map fst (inclusive_time st))"
      "20 \<le> i" "i < length (inclusive_time st)"
    using that unfolding high_inclusive_def by (rule window)
  have we: "fst (sorted_desc snd (exclusive_time st) ! i) \<notin> fst ` set he"
    if "high_exclusive st = Inr he" "distinct (map fst (exclusive_time st))"
      "20 \<le> i" "i < length (exclusive_time st)"
    using that unfolding high_exclusive_def by (rule window)
  from a b c wi we sorted_sorted_desc [of snd "inclusive_time st"]
    sorted_sorted_desc [of snd "exclusive_time st"]
    set_sorted_desc [of snd "inclusive_time st"] set_sorted_desc [of snd "exclusive_time st"]
  show ?thesis by blast
qed

theorem high_cost_window_witness:
  "total_samples (main_parse example_interpreter
      [lit ''a;1'', lit ''b;1'', lit ''c;1'', lit ''d;1'', lit ''e;1'', lit ''f;1'', lit ''g;1'',
       lit ''h;1'', lit ''i;1'', lit ''j;1'', lit ''k;1'', lit ''l;1'', lit ''m;1'', lit ''n;1'',
       lit ''o;1'', lit ''p;1'', lit ''q;1'', lit ''r;1'', lit ''s;1'', lit ''t;1'',
       lit ''u;1'']) = 21
   \<and> sorted_desc snd (inclusive_time (main_parse example_interpreter
      [lit ''a;1'', lit ''b;1'', lit ''c;1'', lit ''d;1'', lit ''e;1'', lit ''f;1'', lit ''g;1'',
       lit ''h;1'', lit ''i;1'', lit ''j;1'', lit ''k;1'', lit ''l;1'', lit ''m;1'', lit ''n;1'',
       lit ''o;1'', lit ''p;1'', lit ''q;1'', lit ''r;1'', lit ''s;1'', lit ''t;1'',
       lit ''u;1''])) ! 20 = (lit ''u'', 1)
   \<and> percentage 1 21 = Inr (Fin (5361428127822019 / 1125899906842624))
   \<and> exceeds (Fin (5361428127822019 / 1125899906842624)) 2
   \<and> (\<exists>hi. high_inclusive (main_parse example_interpreter
      [lit ''a;1'', lit ''b;1'', lit ''c;1'', lit ''d;1'', lit ''e;1'', lit ''f;1'', lit ''g;1'',
       lit ''h;1'', lit ''i;1'', lit ''j;1'', lit ''k;1'', lit ''l;1'', lit ''m;1'', lit ''n;1'',
       lit ''o;1'', lit ''p;1'', lit ''q;1'', lit ''r;1'', lit ''s;1'', lit ''t;1'',
       lit ''u;1'']) = Inr hi \<and> length hi = 20 \<and> lit ''u'' \<notin> fst ` set hi)
   \<and> high_exclusive (main_parse example_interpreter
        [lit ''a;10000000000000001'', lit ''b;989999999999999999'']) = Inr [(lit ''b'', Fin 99)]
   \<and> (10000000000000001 / 1000000000000000000 * 100 :: real) > 1"
proof -
  let ?py = example_interpreter
  let ?L = "[lit ''a;1'', lit ''b;1'', lit ''c;1'', lit ''d;1'', lit ''e;1'', lit ''f;1'', lit ''g;1'',
       lit ''h;1'', lit ''i;1'', lit ''j;1'', lit ''k;1'', lit ''l;1'', lit ''m;1'', lit ''n;1'',
       lit ''o;1'', lit ''p;1'', lit ''q;1'', lit ''r;1'', lit ''s;1'', lit ''t;1'',
       lit ''u;1'']"
  let ?T = "[(lit ''a'', 1), (lit ''b'', 1), (lit ''c'', 1), (lit ''d'', 1), (lit ''e'', 1),
       (lit ''f'', 1), (lit ''g'', 1), (lit ''h'', 1), (lit ''i'', 1), (lit ''j'', 1),
       (lit ''k'', 1), (lit ''l'', 1), (lit ''m'', 1), (lit ''n'', 1), (lit ''o'', 1),
       (lit ''p'', 1), (lit ''q'', 1), (lit ''r'', 1), (lit ''s'', 1), (lit ''t'', 1),
       (lit ''u'', 1 :: int)]"
  let ?B = "[lit ''a;10000000000000001'', lit ''b;989999999999999999'']"
  have s: "samples_of ?py ?L = map (\<lambda>ft. ([fst ft], snd ft)) ?T"
    by (simp add: samples_of_def line_eval)
  have t: "total_samples (main_parse ?py ?L) = 21"
    unfolding main_parse_def parse_file_def parse_file_with_fields s by (simp add: init_def)
  have i: "inclusive_time (main_parse ?py ?L) = ?T"
    unfolding main_parse_def parse_file_def parse_file_with_fields s
    by (simp add: count_inclusive_def init_def lit_def)
  have o: "sorted_desc snd ?T = ?T"
    by (simp add: sorted_desc_def)
  have n: "sorted_desc snd (inclusive_time (main_parse ?py ?L)) ! 20 = (lit ''u'', 1)"
    unfolding i o by simp
  have p: "percentage 1 21 = Inr (Fin (5361428127822019 / 1125899906842624))"
    by (simp add: float_eval)
  have q: "times100 (binary64 (1 / 21)) = Fin (5361428127822019 / 1125899906842624)"
    using p by (simp add: percentage_Inr)
  have x: "exceeds (Fin (5361428127822019 / 1125899906842624)) 2" by simp
  have d: "distinct (map fst (inclusive_time (main_parse ?py ?L)))"
    unfolding i by (simp add: lit_def)
  obtain hi where hi: "high_inclusive (main_parse ?py ?L) = Inr hi"
    using p unfolding high_inclusive_def t i o by simp
  have "hi = filter (\<lambda>fp. exceeds (snd fp) 2)
             (map (\<lambda>ft. (fst ft, times100 (binary64 (of_int (snd ft)
                     / of_int (total_samples (main_parse ?py ?L))))))
                (take 20 (sorted_desc snd (inclusive_time (main_parse ?py ?L)))))"
    using high_cost_window [where st = "main_parse ?py ?L" and hi = hi, THEN conjunct1] hi
    by blast
  then have len: "length hi = 20"
    unfolding t i o by (simp add: q)
  have "fst (sorted_desc snd (inclusive_time (main_parse ?py ?L)) ! 20) \<notin> fst ` set hi"
    using high_cost_window [where st = "main_parse ?py ?L" and hi = hi and i = 20,
        THEN conjunct2, THEN conjunct2, THEN conjunct2, THEN conjunct2, THEN conjunct2,
        THEN conjunct2, THEN conjunct2, THEN conjunct1] hi d
    unfolding i by simp
  then have u: "lit ''u'' \<notin> fst ` set hi"
    unfolding n by simp
  have sb: "samples_of ?py ?B =
        [([lit ''a''], 10000000000000001), ([lit ''b''], 989999999999999999)]"
    by (simp add: samples_of_def line_eval)
  have tb: "total_samples (main_parse ?py ?B) = 1000000000000000000"
    unfolding main_parse_def parse_file_def parse_file_with_fields sb by (simp add: init_def)
  have eb: "exclusive_time (main_parse ?py ?B) =
        [(lit ''a'', 10000000000000001), (lit ''b'', 989999999999999999)]"
    unfolding main_parse_def parse_file_def parse_file_with_fields sb
    by (simp add: init_def lit_def)
  have ob: "sorted_desc snd [(lit ''a'', 10000000000000001 :: int), (lit ''b'', 989999999999999999)]
        = [(lit ''b'', 989999999999999999), (lit ''a'', 10000000000000001)]"
    by (simp add: sorted_desc_def)
  have b: "high_exclusive (main_parse ?py ?B) = Inr [(lit ''b'', Fin 99)]"
    unfolding high_exclusive_def tb eb ob by (simp add: percentage_examples)
  have r: "(10000000000000001 / 1000000000000000000 * 100 :: real) > 1" by simp
  from t n p x hi len u b r show ?thesis by blast
qed

section \<open>The allocation and free tallies of a parsed file\<close>

lemma malloc_keys_are_alloc:
  "f \<in> fst ` set (malloc_counts (parse_file_with py cats init ls)) \<Longrightarrow> is_alloc f"
proof -
  have "fst ` set (foldl (\<lambda>m smp. if is_alloc (last (fst smp))
                      then add_count m (last (fst smp)) (snd smp) else m) m smps)
        \<subseteq> fst ` set m \<union> {f. is_alloc f}" for m smps
  proof (induction smps arbitrary: m)
    case Nil
    then show ?case by simp
  next
    case (Cons smp smps)
    show ?case
      using Cons.IH [of "if is_alloc (last (fst smp))
                      then add_count m (last (fst smp)) (snd smp) else m"]
      by (auto simp: keys_add_count split: if_splits)
  qed
  from this [of "[]" "samples_of py ls"]
  show "f \<in> fst ` set (malloc_counts (parse_file_with py cats init ls)) \<Longrightarrow> is_alloc f"
    unfolding parse_file_with_fields by (auto simp: init_def)
qed

lemma free_keys_are_not_alloc:
  "f \<in> fst ` set (free_counts (parse_file_with py cats init ls)) \<Longrightarrow> \<not> is_alloc f"
proof -
  have "fst ` set (foldl (\<lambda>m smp. if \<not> is_alloc (last (fst smp)) \<and> is_free (last (fst smp))
                      then add_count m (last (fst smp)) (snd smp) else m) m smps)
        \<subseteq> fst ` set m \<union> {f. \<not> is_alloc f}" for m smps
  proof (induction smps arbitrary: m)
    case Nil
    then show ?case by simp
  next
    case (Cons smp smps)
    show ?case
      using Cons.IH [of "if \<not> is_alloc (last (fst smp)) \<and> is_free (last (fst smp))
                      then add_count m (last (fst smp)) (snd smp) else m"]
      by (auto simp: keys_add_count split: if_splits)
  qed
  from this [of "[]" "samples_of py ls"]
  show "f \<in> fst ` set (free_counts (parse_file_with py cats init ls)) \<Longrightarrow> \<not> is_alloc f"
    unfolding parse_file_with_fields by (auto simp: init_def)
qed

lemma get_count_nonzero_key: "get_count m k \<noteq> 0 \<Longrightarrow> k \<in> fst ` set m"
  by (auto simp: get_count_def map_of_eq_None_iff split: option.splits dest: map_of_SomeD
           intro: rev_image_eqI)

text \<open>After one run of \<open>parse_file\<close> on a fresh analyzer a leaf is counted as an allocation
  or as a free, never as both, so no entry of \<open>memory_stats\<close> has two positive counts and
  the list of leak candidates is empty.\<close>

lemma leak_candidates_parse_file:
  "leak_candidates (memory_stats funcs (parse_file py init ls)) = []"
proof -
  let ?st = "parse_file py init ls"
  have "x \<notin> set (leak_candidates (memory_stats funcs ?st))" for x
  proof
    assume x: "x \<in> set (leak_candidates (memory_stats funcs ?st))"
    obtain func malloc free d where p: "x = (func, malloc, free, d)"
      by (cases x) auto
    from x p have "(func, malloc, free, d) \<in> set (collect_leaks (memory_stats funcs ?st))"
      by (simp add: leak_candidates_def set_sorted_desc)
    then obtain t where t: "(func, malloc, free, t) \<in> set (memory_stats funcs ?st)"
      and pos: "malloc > 0" "free > 0"
      unfolding set_collect_leaks by blast
    from t have "malloc = get_count (malloc_counts ?st) func"
      "free = get_count (free_counts ?st) func"
      unfolding set_memory_stats by simp_all
    with pos have m: "get_count (malloc_counts ?st) func > 0"
      and f: "get_count (free_counts ?st) func > 0"
      by simp_all
    from m have "func \<in> fst ` set (malloc_counts ?st)"
      by (intro get_count_nonzero_key) simp
    then have "is_alloc func"
      unfolding parse_file_def by (rule malloc_keys_are_alloc)
    moreover from f have "func \<in> fst ` set (free_counts ?st)"
      by (intro get_count_nonzero_key) simp
    then have "\<not> is_alloc func"
      unfolding parse_file_def by (rule free_keys_are_not_alloc)
    ultimately show False by simp
  qed
  then show ?thesis by (cases "leak_candidates (memory_stats funcs ?st)") auto
qed

lemma distinct_malloc_counts:
  "distinct (map fst (malloc_counts (parse_file_with py cats init ls)))"
proof -
  have "distinct (map fst (foldl (\<lambda>m smp. if is_alloc (last (fst smp))
                      then add_count m (last (fst smp)) (snd smp) else m) m smps))"
    if "distinct (map fst m)" for m smps
    using that by (induction smps arbitrary: m) (simp_all add: distinct_add_count)
  from this [of "[]" "samples_of py ls"] show ?thesis
    unfolding parse_file_with_fields by (simp add: init_def)
qed

text \<open>On a parsed file with a positive total allocation count some allocation leaf has a
  positive count and no free count, so \<open>memory_stats\<close> is not empty.\<close>

lemma memory_stats_not_empty:
  assumes e: "enumerates funcs (parse_file py init ls)"
    and p: "0 < sum_values (malloc_counts (parse_file py init ls))"
  shows "memory_stats funcs (parse_file py init ls) \<noteq> []"
proof -
  let ?M = "malloc_counts (parse_file py init ls)" and ?F = "free_counts (parse_file py init ls)"
  have "distinct (map fst ?M)"
    unfolding parse_file_def by (rule distinct_malloc_counts)
  then have "(\<Sum>k\<in>fst ` set ?M. get_count ?M k) = sum_values ?M"
    by (rule sum_values_keys)
  with p have "\<not> (\<Sum>k\<in>fst ` set ?M. get_count ?M k) \<le> 0" by simp
  then have "\<not> (\<forall>k\<in>fst ` set ?M. get_count ?M k \<le> 0)"
    using sum_nonpos [of "fst ` set ?M" "get_count ?M"] by blast
  then obtain k where k: "k \<in> fst ` set ?M" "0 < get_count ?M k"
    by force
  from k(1) have "is_alloc k"
    unfolding parse_file_def by (rule malloc_keys_are_alloc)
  then have "k \<notin> fst ` set ?F"
    using free_keys_are_not_alloc [of k py categories ls] unfolding parse_file_def by blast
  then have "get_count ?F k = 0"
    using get_count_nonzero_key [of ?F k] by blast
  moreover from e k(1) have "k \<in> set funcs"
    by (simp add: enumerates_def)
  ultimately have "(k, get_count ?M k, 0, get_count ?M k)
        \<in> set (memory_stats funcs (parse_file py init ls))"
    using k(2) unfolding set_memory_stats by simp
  then show ?thesis by auto
qed

section \<open>Percentages and the zero total\<close>

lemma ranking_rows_zero: "xs \<noteq> [] \<Longrightarrow> ranking_rows 0 xs = Inl ZeroDivisionError"
  by (cases xs) (auto simp: percentage_zero)

lemma ranking_rows_Inr:
  "ranking_rows tot xs = Inr rows \<Longrightarrow>
   rows = map (\<lambda>ft. (fst ft, snd ft, times100 (binary64 (of_int (snd ft) / of_int tot)))) xs"
proof (induction tot xs arbitrary: rows rule: ranking_rows.induct)
  case (1 tot)
  then show ?case by simp
next
  case (2 tot func time_val rest)
  from "2.prems" obtain p where p: "percentage time_val tot = Inr p"
    by (cases "percentage time_val tot") simp_all
  with "2.prems" obtain rs where rs: "ranking_rows tot rest = Inr rs"
    by (cases "ranking_rows tot rest") simp_all
  from p have pv: "p = times100 (binary64 (of_int time_val / of_int tot))"
    by (simp add: percentage_Inr)
  from "2.IH" [OF p rs] "2.prems" p rs pv show ?case
    by simp
qed

text \<open>With a total other than zero and no quotient too large for a float a ranking
  returns, and each percentage is the float \<open>(weight / total) * 100\<close>.\<close>

lemma ranking_rows_returns:
  "tot \<noteq> 0 \<Longrightarrow> \<forall>ft\<in>set xs. \<not> overflows (of_int (snd ft) / of_int tot) \<Longrightarrow>
   ranking_rows tot xs =
     Inr (map (\<lambda>ft. (fst ft, snd ft, times100 (binary64 (of_int (snd ft) / of_int tot)))) xs)"
proof (induction tot xs rule: ranking_rows.induct)
  case (1 tot)
  then show ?case by simp
next
  case (2 tot func time_val rest)
  then have p: "percentage time_val tot =
             Inr (times100 (binary64 (of_int time_val / of_int tot)))"
    by (simp add: percentage_Inr)
  from "2.IH" [OF p] "2.prems" p show ?case by simp
qed

text \<open>The rows of the memory analysis use the guarded percentage and never divide by a
  zero total; the totals after them do.\<close>

lemma for_each_returns:
  "\<forall>x\<in>set xs. \<exists>y. f x = Inr y \<Longrightarrow> \<exists>ys. for_each f xs = Inr ys"
  by (induction xs) auto

lemma stat_row_zero: "\<exists>y. stat_row 0 x = Inr y"
  by (cases x) (simp add: stat_row_def bind_err_def guarded_percentage_def)

lemma memory_report_zero_total:
  assumes "memory_stats funcs st \<noteq> []" "total_samples st = 0"
  shows "print_memory_analysis funcs st = Inl ZeroDivisionError"
proof -
  obtain rows where "for_each (stat_row 0) (take 20 (memory_stats funcs st)) = Inr rows"
    using for_each_returns [of "take 20 (memory_stats funcs st)" "stat_row 0"] stat_row_zero
    by blast
  with assms show ?thesis
    by (simp add: print_memory_analysis_def Let_def bind_err_def percentage_zero)
qed

text \<open>On the empty input every tally is empty and no report operation divides.\<close>

lemma empty_input_reports:
  "total_samples (parse_file py init []) = 0"
  "print_inclusive_time_top (parse_file py init []) n = Inr []"
  "print_exclusive_time_top (parse_file py init []) n = Inr []"
  "print_leaf_functions_top (parse_file py init []) n = Inr []"
  "print_category_analysis (parse_file py init []) = Inr []"
  "print_moganstem_analysis (parse_file py init []) = Inr []"
  "print_performance_issues (parse_file py init []) = Inr ([], [])"
  "print_memory_analysis [] (parse_file py init []) = Inr None"
proof -
  have st: "parse_file py init [] = init"
    by (simp add: parse_file_def parse_file_with_def parse_lines_def compute_categories_def
          init_def)
  show "total_samples (parse_file py init []) = 0"
    unfolding st by (simp add: init_def)
  show "print_inclusive_time_top (parse_file py init []) n = Inr []"
    unfolding st by (simp add: print_inclusive_time_top_def init_def sorted_desc_def py_take_def)
  show "print_exclusive_time_top (parse_file py init []) n = Inr []"
    unfolding st by (simp add: print_exclusive_time_top_def init_def sorted_desc_def py_take_def)
  show "print_leaf_functions_top (parse_file py init []) n = Inr []"
    unfolding st by (simp add: print_leaf_functions_top_def init_def sorted_desc_def py_take_def)
  show "print_category_analysis (parse_file py init []) = Inr []"
    unfolding st by (simp add: print_category_analysis_def init_def sorted_desc_def)
  show "print_moganstem_analysis (parse_file py init []) = Inr []"
    unfolding st by (simp add: print_moganstem_analysis_def init_def sorted_desc_def)
  show "print_performance_issues (parse_file py init []) = Inr ([], [])"
    unfolding st
    by (simp add: print_performance_issues_def high_inclusive_def high_exclusive_def init_def
          sorted_desc_def)
  show "print_memory_analysis [] (parse_file py init []) = Inr None"
    unfolding st by (simp add: print_memory_analysis_def memory_stats_def sorted_desc_def)
qed

text \<open>
  Claim C2 asks that no report operation divides by a zero total sample weight, also when
  accepted lines exist whose weights sum to zero. The rows of the memory analysis use the
  guarded percentage, which is 0 for a zero total; the rankings, the category analysis,
  the high-cost view and the totals of the memory analysis divide unguarded. On the file
  with the single line \<open>a;0\<close> one line is accepted, the total sample weight is 0, and the
  rankings, the category analysis and the high-cost view end in \<open>ZeroDivisionError\<close>; on
  the file with the lines \<open>malloc;5\<close> and \<open>x;-5\<close> the memory analysis does. The same holds
  in the default mode, which parses the file twice.
\<close>

theorem zero_total_division_fault:
  "parsed_lines (parse_file py init [lit ''a;0'']) = 1
   \<and> total_samples (parse_file py init [lit ''a;0'']) = 0
   \<and> print_inclusive_time_top (parse_file py init [lit ''a;0'']) 20 = Inl ZeroDivisionError
   \<and> print_exclusive_time_top (parse_file py init [lit ''a;0'']) 20 = Inl ZeroDivisionError
   \<and> print_leaf_functions_top (parse_file py init [lit ''a;0'']) 30 = Inl ZeroDivisionError
   \<and> print_category_analysis (parse_file py init [lit ''a;0'']) = Inl ZeroDivisionError
   \<and> print_performance_issues (parse_file py init [lit ''a;0'']) = Inl ZeroDivisionError
   \<and> parsed_lines (parse_file py init [lit ''malloc;5'', lit ''x;-5'']) = 2
   \<and> total_samples (parse_file py init [lit ''malloc;5'', lit ''x;-5'']) = 0
   \<and> print_memory_analysis [lit ''malloc''] (parse_file py init [lit ''malloc;5'', lit ''x;-5'']) =
       Inl ZeroDivisionError
   \<and> guarded_percentage v 0 = Inr (Fin 0)
   \<and> total_samples (main_default py [lit ''a;0'']) = 0
   \<and> print_inclusive_time_top (main_default py [lit ''a;0'']) 20 = Inl ZeroDivisionError"
proof -
  let ?st = "parse_file py init [lit ''a;0'']"
  have s: "samples_of py [lit ''a;0''] = [([lit ''a''], 0)]"
    by (simp add: samples_of_def line_eval)
  have p: "parsed_lines ?st = 1"
    unfolding parse_file_def parse_file_with_fields s by (simp add: init_def)
  have t: "total_samples ?st = 0"
    unfolding parse_file_def parse_file_with_fields s by (simp add: init_def)
  have i: "inclusive_time ?st = [(lit ''a'', 0)]"
    unfolding parse_file_def parse_file_with_fields s by (simp add: count_inclusive_def init_def)
  have e: "exclusive_time ?st = [(lit ''a'', 0)]"
    unfolding parse_file_def parse_file_with_fields s by (simp add: init_def)
  have l: "leaf_counts ?st = [(lit ''a'', 0)]"
    unfolding parse_file_def parse_file_with_fields s by (simp add: init_def)
  have "category_counts ?st \<noteq> []"
    unfolding parse_file_def parse_file_with_fields s
    by (simp add: count_funcs_def init_def lit_def categorize_func_def categorize_one_find
          split: option.splits)
  then have c: "sorted_desc snd (category_counts ?st) \<noteq> []"
    using set_sorted_desc [of snd "category_counts ?st"] by (metis set_empty)
  have r1: "print_inclusive_time_top ?st 20 = Inl ZeroDivisionError"
    unfolding print_inclusive_time_top_def t i
    by (simp add: sorted_desc_def py_take_def percentage_zero)
  have r2: "print_exclusive_time_top ?st 20 = Inl ZeroDivisionError"
    unfolding print_exclusive_time_top_def t e
    by (simp add: sorted_desc_def py_take_def percentage_zero)
  have r3: "print_leaf_functions_top ?st 30 = Inl ZeroDivisionError"
    unfolding print_leaf_functions_top_def t l
    by (simp add: sorted_desc_def py_take_def percentage_zero)
  have r4: "print_category_analysis ?st = Inl ZeroDivisionError"
    unfolding print_category_analysis_def t using c by (rule ranking_rows_zero)
  have "high_inclusive ?st = Inl ZeroDivisionError"
    unfolding high_inclusive_def t i by (simp add: sorted_desc_def percentage_zero)
  then have r5: "print_performance_issues ?st = Inl ZeroDivisionError"
    by (simp add: print_performance_issues_def)
  let ?mt = "parse_file py init [lit ''malloc;5'', lit ''x;-5'']"
  have s2: "samples_of py [lit ''malloc;5'', lit ''x;-5''] =
        [([lit ''malloc''], 5), ([lit ''x''], - 5)]"
    by (simp add: samples_of_def line_eval)
  have p2: "parsed_lines ?mt = 2"
    unfolding parse_file_def parse_file_with_fields s2 by (simp add: init_def)
  have t2: "total_samples ?mt = 0"
    unfolding parse_file_def parse_file_with_fields s2 by (simp add: init_def)
  have a1: "is_alloc (lit ''malloc'')" by (simp add: is_alloc_def lit_def)
  have a2: "\<not> is_alloc (lit ''x'')" "\<not> is_free (lit ''x'')"
    by (simp_all add: is_alloc_def is_free_def lit_def)
  have m: "malloc_counts ?mt = [(lit ''malloc'', 5)]"
    unfolding parse_file_def parse_file_with_fields s2 using a1 a2 by (simp add: init_def)
  have fr: "free_counts ?mt = []"
    unfolding parse_file_def parse_file_with_fields s2 using a1 a2 by (simp add: init_def)
  have ms: "memory_stats [lit ''malloc''] ?mt = [(lit ''malloc'', 5, 0, 5)]"
    unfolding memory_stats_def stat_of_def m fr
    by (simp add: get_count_def sorted_desc_def)
  have r6: "print_memory_analysis [lit ''malloc''] ?mt = Inl ZeroDivisionError"
    using ms t2 by (intro memory_report_zero_total) simp_all
  have g: "guarded_percentage v 0 = Inr (Fin 0)"
    by (simp add: guarded_percentage_def)
  have t3: "total_samples (main_default py [lit ''a;0'']) = 0"
    unfolding main_default_fields s by simp
  have i3: "inclusive_time (main_default py [lit ''a;0'']) = [(lit ''a'', 0)]"
    unfolding main_default_fields s by (simp add: count_inclusive_def)
  have r7: "print_inclusive_time_top (main_default py [lit ''a;0'']) 20 = Inl ZeroDivisionError"
    unfolding print_inclusive_time_top_def t3 i3
    by (simp add: sorted_desc_def py_take_def percentage_zero)
  from p t r1 r2 r3 r4 r5 p2 t2 r6 g t3 r7 show ?thesis by simp
qed

section \<open>The ratio of frees to allocations\<close>

text \<open>The classification of the ratio, a float, against the floats \<open>0.8\<close> and \<open>1.2\<close>.\<close>

lemma release_ratio_classes:
  "0 < total_malloc \<Longrightarrow> \<not> overflows (of_int total_free / of_int total_malloc) \<Longrightarrow>
     \<exists>note. release_ratio total_malloc total_free =
               Inr (Some (binary64 (of_int total_free / of_int total_malloc), note))
       \<and> (note = LeakRisk \<longleftrightarrow>
            binary64 (of_int total_free / of_int total_malloc) < float_0_8)
       \<and> (note = CacheReleaseOrSkew \<longleftrightarrow>
            binary64 (of_int total_free / of_int total_malloc) > float_1_2)
       \<and> (note = Neutral \<longleftrightarrow>
            float_0_8 \<le> binary64 (of_int total_free / of_int total_malloc)
            \<and> binary64 (of_int total_free / of_int total_malloc) \<le> float_1_2)"
  "0 < total_malloc \<Longrightarrow> overflows (of_int total_free / of_int total_malloc) \<Longrightarrow>
     release_ratio total_malloc total_free = Inl OverflowError"
  "total_malloc \<le> 0 \<Longrightarrow> release_ratio total_malloc total_free = Inr None"
proof -
  have lt: "float_0_8 < float_1_2"
    by (simp add: float_literals)
  show "\<exists>note. release_ratio total_malloc total_free =
               Inr (Some (binary64 (of_int total_free / of_int total_malloc), note))
       \<and> (note = LeakRisk \<longleftrightarrow>
            binary64 (of_int total_free / of_int total_malloc) < float_0_8)
       \<and> (note = CacheReleaseOrSkew \<longleftrightarrow>
            binary64 (of_int total_free / of_int total_malloc) > float_1_2)
       \<and> (note = Neutral \<longleftrightarrow>
            float_0_8 \<le> binary64 (of_int total_free / of_int total_malloc)
            \<and> binary64 (of_int total_free / of_int total_malloc) \<le> float_1_2)"
    if "0 < total_malloc" "\<not> overflows (of_int total_free / of_int total_malloc)"
    using that lt by (auto simp: release_ratio_def truediv_def)
  show "release_ratio total_malloc total_free = Inl OverflowError"
    if "0 < total_malloc" "overflows (of_int total_free / of_int total_malloc)"
    using that by (simp add: release_ratio_def truediv_def)
  show "release_ratio total_malloc total_free = Inr None" if "total_malloc \<le> 0"
    using that by (simp add: release_ratio_def)
qed

text \<open>The ratios 3/5, 13/10, 8/10 and 12/10, and a ratio below 8/10 whose float is the
  float \<open>0.8\<close>.\<close>

lemma release_ratio_examples:
  "release_ratio 5 3 = Inr (Some (5404319552844595 / 9007199254740992, LeakRisk))"
  "release_ratio 10 13 = Inr (Some (5854679515581645 / 4503599627370496, CacheReleaseOrSkew))"
  "release_ratio 10 8 = Inr (Some (float_0_8, Neutral))"
  "release_ratio 10 12 = Inr (Some (float_1_2, Neutral))"
  "release_ratio 0 7 = Inr None"
  "release_ratio 5 0 = Inr (Some (0, LeakRisk))"
  "release_ratio 500000000000000000 399999999999999999 = Inr (Some (float_0_8, Neutral))"
  "(399999999999999999 / 500000000000000000 :: real) < 8 / 10"
  by (simp_all add: release_ratio_def float_literals float_eval)

text \<open>
  Claim C8 asks that with a total allocation count greater than zero the ratio of the
  total free count to the total allocation count is classified. The ratio is computed
  after the percentages of the two totals, which divide by the total sample weight
  unguarded. On the file with the lines \<open>malloc;5\<close> and \<open>x;-5\<close> the total allocation count
  is 5 and the total free count is 0, a ratio of 0 that would be classified as a
  possible leak risk, but the total sample weight is 0 and the memory analysis ends in
  \<open>ZeroDivisionError\<close> with no ratio and no classification; so it does in the default
  mode, which parses the file twice.
\<close>

theorem ratio_unreached_on_zero_total:
  "sum_values (malloc_counts (parse_file py init [lit ''malloc;5'', lit ''x;-5''])) = 5
   \<and> sum_values (free_counts (parse_file py init [lit ''malloc;5'', lit ''x;-5''])) = 0
   \<and> total_samples (parse_file py init [lit ''malloc;5'', lit ''x;-5'']) = 0
   \<and> enumerates [lit ''malloc''] (parse_file py init [lit ''malloc;5'', lit ''x;-5''])
   \<and> release_ratio 5 0 = Inr (Some (0, LeakRisk))
   \<and> print_memory_analysis [lit ''malloc'']
         (parse_file py init [lit ''malloc;5'', lit ''x;-5'']) = Inl ZeroDivisionError
   \<and> sum_values (malloc_counts (main_default py [lit ''malloc;5'', lit ''x;-5''])) = 10
   \<and> total_samples (main_default py [lit ''malloc;5'', lit ''x;-5'']) = 0
   \<and> enumerates [lit ''malloc''] (main_default py [lit ''malloc;5'', lit ''x;-5''])
   \<and> print_memory_analysis [lit ''malloc'']
         (main_default py [lit ''malloc;5'', lit ''x;-5'']) = Inl ZeroDivisionError"
proof -
  let ?L = "[lit ''malloc;5'', lit ''x;-5'']"
  let ?mt = "parse_file py init ?L"
  let ?dt = "main_default py ?L"
  have s: "samples_of py ?L = [([lit ''malloc''], 5), ([lit ''x''], - 5)]"
    by (simp add: samples_of_def line_eval)
  have a1: "is_alloc (lit ''malloc'')" by (simp add: is_alloc_def lit_def)
  have a2: "\<not> is_alloc (lit ''x'')" "\<not> is_free (lit ''x'')"
    by (simp_all add: is_alloc_def is_free_def lit_def)
  have t: "total_samples ?mt = 0"
    unfolding parse_file_def parse_file_with_fields s by (simp add: init_def)
  have m: "malloc_counts ?mt = [(lit ''malloc'', 5)]"
    unfolding parse_file_def parse_file_with_fields s using a1 a2 by (simp add: init_def)
  have fr: "free_counts ?mt = []"
    unfolding parse_file_def parse_file_with_fields s using a1 a2 by (simp add: init_def)
  have sm: "sum_values (malloc_counts ?mt) = 5" "sum_values (free_counts ?mt) = 0"
    unfolding m fr by (simp_all add: sum_values_def)
  have en: "enumerates [lit ''malloc''] ?mt"
    unfolding enumerates_def m fr by simp
  have ms: "memory_stats [lit ''malloc''] ?mt = [(lit ''malloc'', 5, 0, 5)]"
    unfolding memory_stats_def stat_of_def m fr
    by (simp add: get_count_def sorted_desc_def)
  have r: "print_memory_analysis [lit ''malloc''] ?mt = Inl ZeroDivisionError"
    using ms t by (intro memory_report_zero_total) simp_all
  have mp: "main_parse py ?L = ?mt"
    by (simp add: main_parse_def)
  have td: "total_samples ?dt = 0"
    unfolding main_default_fields s by simp
  have md: "malloc_counts ?dt = [(lit ''malloc'', 10)]"
    unfolding main_default_def mp parse_file_def [of py ?mt] parse_file_with_fields s
    unfolding parse_file_def [symmetric] m
    using a1 a2 by simp
  have fd: "free_counts ?dt = []"
    unfolding main_default_def mp parse_file_def [of py ?mt] parse_file_with_fields s
    unfolding parse_file_def [symmetric] fr
    using a1 a2 by simp
  have sd: "sum_values (malloc_counts ?dt) = 10"
    unfolding md by (simp add: sum_values_def)
  have ed: "enumerates [lit ''malloc''] ?dt"
    unfolding enumerates_def md fd by simp
  have msd: "memory_stats [lit ''malloc''] ?dt = [(lit ''malloc'', 10, 0, 10)]"
    unfolding memory_stats_def stat_of_def md fd
    by (simp add: get_count_def sorted_desc_def)
  have rd: "print_memory_analysis [lit ''malloc''] ?dt = Inl ZeroDivisionError"
    using msd td by (intro memory_report_zero_total) simp_all
  have c: "release_ratio 5 0 = Inr (Some (0, LeakRisk))"
    by (rule release_ratio_examples)
  from sm t en c r sd td ed rd show ?thesis by simp
qed

text \<open>On every file parsed once whose total allocation count is positive and whose total
  sample weight is zero the memory analysis ends in \<open>ZeroDivisionError\<close>.\<close>

lemma memory_report_fault:
  assumes "enumerates funcs (parse_file py init ls)"
    and "0 < sum_values (malloc_counts (parse_file py init ls))"
    and "total_samples (parse_file py init ls) = 0"
  shows "print_memory_analysis funcs (parse_file py init ls) = Inl ZeroDivisionError"
  using memory_stats_not_empty [OF assms(1,2)] assms(3) by (rule memory_report_zero_total)

text \<open>A file on which the report is produced: the ratio 3/5 is classified as a possible
  leak risk.\<close>

lemma memory_report_example:
  "\<exists>r. print_memory_analysis [lit ''malloc'', lit ''free'']
          (main_parse example_interpreter [lit ''main;malloc;5'', lit ''main;free;3''])
        = Inr (Some r)
     \<and> ratio_line r = Some (5404319552844595 / 9007199254740992, LeakRisk)"
proof -
  let ?py = example_interpreter
  let ?st = "main_parse ?py [lit ''main;malloc;5'', lit ''main;free;3'']"
  have s: "samples_of ?py [lit ''main;malloc;5'', lit ''main;free;3''] =
           [([lit ''main'', lit ''malloc''], 5), ([lit ''main'', lit ''free''], 3)]"
    by (simp add: samples_of_def line_eval)
  have a1: "is_alloc (lit ''malloc'')" by (simp add: is_alloc_def lit_def)
  have a2: "\<not> is_alloc (lit ''free'')" "is_free (lit ''free'')"
    by (simp_all add: is_alloc_def is_free_def lit_def)
  have m: "malloc_counts ?st = [(lit ''malloc'', 5)]"
    unfolding main_parse_def parse_file_def parse_file_with_fields s
    using a1 a2 by (simp add: init_def)
  have f: "free_counts ?st = [(lit ''free'', 3)]"
    unfolding main_parse_def parse_file_def parse_file_with_fields s
    using a1 a2 by (simp add: init_def)
  have t: "total_samples ?st = 8"
    unfolding main_parse_def parse_file_def parse_file_with_fields s by (simp add: init_def)
  have ne: "lit ''malloc'' \<noteq> lit ''free''" "lit ''free'' \<noteq> lit ''malloc''"
    by (simp_all add: lit_def)
  have ms: "memory_stats [lit ''malloc'', lit ''free''] ?st =
        [(lit ''malloc'', 5, 0, 5), (lit ''free'', 0, 3, 3)]"
    unfolding memory_stats_def stat_of_def m f
    using ne by (simp add: get_count_def sorted_desc_def)
  have p: "percentage 5 8 = Inr (Fin (125 / 2))" "percentage 3 8 = Inr (Fin (75 / 2))"
    "percentage 0 8 = Inr (Fin 0)"
    by (simp_all add: float_eval)
  show ?thesis
    unfolding print_memory_analysis_def ms t m f
    by (simp add: bind_err_def stat_row_def hotspot_row_def guarded_percentage_def p
          sum_values_def release_ratio_examples leak_candidates_def sorted_desc_def)
qed

end
